theory Spec2Isabelle
  imports Complex_Main "HOL-Library.Char_ord" "HOL-Library.List_Lexorder"
begin

section \<open>Text primitives\<close>

text \<open>
  Product names and units are Python \<open>str\<close> values. They are modelled as \<^typ>\<open>string\<close>
  (a list of 8-bit characters) and the character classes below are those of Python on the
  ASCII range: \<open>str.upper\<close> maps \<open>a..z\<close> to \<open>A..Z\<close> and leaves every other character alone,
  \<open>str.isspace\<close> (used by \<open>str.strip\<close>, \<open>str.split\<close> and the regex class \<open>\s\<close>) holds for
  the code points 9 to 13, 28 to 31 and 32, \<open>\d\<close> holds for \<open>0..9\<close>, and \<open>\w\<close> for letters,
  digits and the underscore. Characters beyond ASCII are outside the model.
\<close>

definition upper_char :: "char \<Rightarrow> char" where
  "upper_char c =
     (case map_of (zip ''abcdefghijklmnopqrstuvwxyz'' ''ABCDEFGHIJKLMNOPQRSTUVWXYZ'') c of
        Some u \<Rightarrow> u
      | None \<Rightarrow> c)"

definition py_upper :: "string \<Rightarrow> string" where
  "py_upper s = map upper_char s"

definition is_space :: "char \<Rightarrow> bool" where
  "is_space c =
     (c \<in> set [CHR 0x09, CHR 0x0A, CHR 0x0B, CHR 0x0C, CHR 0x0D,
                CHR 0x1C, CHR 0x1D, CHR 0x1E, CHR 0x1F, CHR '' ''])"

definition is_digit :: "char \<Rightarrow> bool" where
  "is_digit c = (c \<in> set ''0123456789'')"

definition py_strip :: "string \<Rightarrow> string" where
  "py_strip s = rev (dropWhile is_space (rev (dropWhile is_space s)))"

text \<open>
  \<open>re.split\<close> with a pattern that is one character class: the text is cut at every
  character of the class, so \<open>n\<close> separators give \<open>n + 1\<close> pieces, some of them empty.
\<close>

fun re_split :: "(char \<Rightarrow> bool) \<Rightarrow> string \<Rightarrow> string list" where
  "re_split sep [] = [[]]"
| "re_split sep (c # cs) =
     (if sep c then [] # re_split sep cs
      else (case re_split sep cs of
              [] \<Rightarrow> [[c]]
            | t # ts \<Rightarrow> (c # t) # ts))"

subsection \<open>Regular expressions\<close>

text \<open>
  The fragment of Python's \<open>re\<close> syntax that the program uses: a character class, a
  literal word, \<open>r?\<close>, \<open>class+\<close>, alternation and sequence. \<open>rests ic r s\<close> lists, in the
  order a backtracking matcher tries them, the remainders of \<open>s\<close> after each way of
  matching \<open>r\<close> at its start; \<open>ic\<close> is the flag \<open>re.IGNORECASE\<close>.
\<close>

datatype regex =
    Class "char \<Rightarrow> bool"
  | Lit string
  | Opt regex
  | Many1 "char \<Rightarrow> bool"
  | Alt regex regex
  | Seq regex regex

fun rests_many :: "(char \<Rightarrow> bool) \<Rightarrow> string \<Rightarrow> string list" where
  "rests_many p [] = []"
| "rests_many p (c # cs) = (if p c then rests_many p cs @ [cs] else [])"

definition lit_eq :: "bool \<Rightarrow> string \<Rightarrow> string \<Rightarrow> bool" where
  "lit_eq ic u w = (if ic then py_upper u = py_upper w else u = w)"

fun rests :: "bool \<Rightarrow> regex \<Rightarrow> string \<Rightarrow> string list" where
  "rests ic (Class p) s = (case s of [] \<Rightarrow> [] | c # cs \<Rightarrow> if p c then [cs] else [])"
| "rests ic (Lit w) s =
     (if length w \<le> length s \<and> lit_eq ic (take (length w) s) w
      then [drop (length w) s] else [])"
| "rests ic (Opt r) s = rests ic r s @ [s]"
| "rests ic (Many1 p) s = rests_many p s"
| "rests ic (Alt a b) s = rests ic a s @ rests ic b s"
| "rests ic (Seq a b) s = concat (map (rests ic b) (rests ic a s))"

text \<open>
  \<open>re.match\<close> of the pattern \<open>^r$\<close>: the match starts at the beginning of the text, and
  Python's \<open>$\<close> holds at the end of the text and also just before a newline that ends it.
\<close>

definition match_to_end :: "bool \<Rightarrow> regex \<Rightarrow> string \<Rightarrow> bool" where
  "match_to_end ic r s = list_ex (\<lambda>rest. rest = [] \<or> rest = [CHR 0x0A]) (rests ic r s)"

section \<open>API extraction\<close>

definition dosage_pattern :: regex where
  "dosage_pattern =
     Seq (Many1 is_digit)
       (Seq (Opt (Class is_space))
          (Alt (Lit ''MG'') (Alt (Lit ''ML'') (Alt (Lit ''GM'') (Alt (Lit ''G'') (Lit ''KG''))))))"

definition is_invalid :: "string \<Rightarrow> bool" where
  "is_invalid token = (match_to_end True dosage_pattern token \<or> length token < 4)"

definition exclude_terms :: "string list" where
  "exclude_terms =
     [''PHARMACEUTICAL'', ''LIMITED'', ''PRIVATE'', ''HARMLESS'', ''EXPORT'',
      ''LAB'', ''LABS'', ''INDIA'', ''TABLET'', ''CAPSULE'', ''INJECTION'',
      ''SYRUP'', ''CREAM'', ''OINTMENT'', ''DROPS'', ''NOS'', ''KGS'', ''KG'']"

definition is_separator :: "char \<Rightarrow> bool" where
  "is_separator c = (c \<in> set ''-+/(),.% '')"

definition valid_tokens :: "string \<Rightarrow> string list" where
  "valid_tokens name =
     (let tokens = re_split is_separator (py_upper name)
      in map py_strip
           (filter (\<lambda>t. py_strip t \<noteq> [] \<and> py_strip t \<notin> set exclude_terms
                          \<and> \<not> is_invalid (py_strip t)) tokens))"

text \<open>
  \<open>extract_api\<close> receives the text \<open>str(name)\<close> of a cell; the conversion of the cell is
  done where the function is applied to the column.
\<close>

definition extract_api :: "string \<Rightarrow> string" where
  "extract_api name = (case valid_tokens name of [] \<Rightarrow> ''INVALID'' | t # _ \<Rightarrow> t)"


section \<open>Tables\<close>

text \<open>
  A table is a pandas \<open>DataFrame\<close> read from the uploaded CSV file: the names of the columns
  it has, and its rows. A row carries one field for each column the program reads; the
  field of a column that the table does not have is a placeholder that is never read,
  because every access to a column goes through \<open>columns\<close> first and raises \<open>KeyError\<close>
  as \<open>df[col]\<close> does.

  A cell of a text column is \<open>Some\<close> of its text, or \<open>None\<close> for a missing value (NaN).
  A cell of a numeric column is \<open>Num r\<close> for a cell that holds or spells the number \<open>r\<close>,
  \<open>Text s\<close> for text that \<open>pd.to_numeric\<close> cannot parse, or \<open>NaN\<close> for a missing value.
  Numbers are modelled by exact rationals. A pandas column of numbers is \<open>float64\<close> or
  \<open>int64\<close>: the model agrees with it on the numbers whose sums and products are computed
  there without rounding or overflow (integers and two-decimal amounts of ordinary size);
  rounding, infinities and the wrap-around of \<open>int64\<close> are outside the model.

  \<open>pd.read_csv\<close> gives a column the dtype \<open>object\<close> when some cell of it holds text, and
  also when the table has no rows. A column of one or more missing values and nothing else
  is a float column, and the accessor \<open>.str\<close> raises \<open>AttributeError\<close> on it, also after rows
  have been filtered out. The cells of the two text columns are text or missing: a
  \<open>Product Name\<close> or \<open>Unit\<close> column in which every cell spells a number is read as a numeric
  column, on which \<open>.str\<close> raises as well, and is outside the model.
\<close>

datatype cell = Num rat | Text string | NaN

record row =
  Product_Name :: "string option"
  Unit :: "string option"
  Quantity :: cell
  FOB_INR :: cell
  Item_Rate_INR :: cell
  FOB_USD :: cell
  API :: string

record frame =
  columns :: "string list"
  rows :: "row list"

datatype error = KeyError string | AttributeError | ZeroDivision

definition is_text_column :: "(row \<Rightarrow> string option) \<Rightarrow> frame \<Rightarrow> bool" where
  "is_text_column cell df = (rows df = [] \<or> list_ex (\<lambda>r. cell r \<noteq> None) (rows df))"

section \<open>Normalizer\<close>

definition numeric_cols :: "string list" where
  "numeric_cols = [''Quantity'', ''FOB (INR)'', ''Item Rate(INR)'', ''FOB (USD)'']"

definition to_numeric :: "cell \<Rightarrow> cell" where
  "to_numeric c = (case c of Num r \<Rightarrow> Num r | Text s \<Rightarrow> NaN | NaN \<Rightarrow> NaN)"

definition fillna0 :: "cell \<Rightarrow> cell" where
  "fillna0 c = (case c of NaN \<Rightarrow> Num 0 | _ \<Rightarrow> c)"

definition num_field :: "string \<Rightarrow> row \<Rightarrow> cell" where
  "num_field col r =
     (if col = ''Quantity'' then Quantity r
      else if col = ''FOB (INR)'' then FOB_INR r
      else if col = ''Item Rate(INR)'' then Item_Rate_INR r
      else FOB_USD r)"

definition set_num_field :: "string \<Rightarrow> cell \<Rightarrow> row \<Rightarrow> row" where
  "set_num_field col v r =
     (if col = ''Quantity'' then r\<lparr>Quantity := v\<rparr>
      else if col = ''FOB (INR)'' then r\<lparr>FOB_INR := v\<rparr>
      else if col = ''Item Rate(INR)'' then r\<lparr>Item_Rate_INR := v\<rparr>
      else r\<lparr>FOB_USD := v\<rparr>)"

text \<open>One round of the loop over \<open>numeric_cols\<close>: a column that is absent is skipped.\<close>

definition coerce_column :: "string \<Rightarrow> frame \<Rightarrow> frame" where
  "coerce_column col df =
     (if col \<in> set (columns df)
      then df\<lparr>rows := map (\<lambda>r. set_num_field col (fillna0 (to_numeric (num_field col r))) r)
                           (rows df)\<rparr>
      else df)"

text \<open>
  \<open>Series.sum()\<close> skips NaN. The columns that are summed or multiplied have been coerced,
  so they hold numbers only (lemma \<open>is_num_coerce\<close> below): the equation for text in
  \<open>num_val\<close> and the case of text in \<open>times_rate\<close> are never used.

  \<open>series_sum\<close> is the exact sum and \<open>times_rate\<close> the exact product. The program adds
  and multiplies floats: its sum is the exact one when no addition rounds, and it is 0 in
  particular when every entry is 0. Entries whose float sum rounds (such as 1e16, 1, -1e16,
  -1, whose float sum is -1 and exact sum 0) are outside the model, and so is the last digit
  of a product (3 * 0.012 is 0.036000000000000004 in floats).
\<close>

fun num_val :: "cell \<Rightarrow> rat" where
  "num_val (Num r) = r"
| "num_val NaN = 0"
| "num_val (Text s) = 0"

definition series_sum :: "cell list \<Rightarrow> rat" where
  "series_sum cs = sum_list (map num_val cs)"

definition FIXED_RATE :: rat where
  "FIXED_RATE = 12 / 1000"

definition times_rate :: "cell \<Rightarrow> cell" where
  "times_rate c = (case c of Num r \<Rightarrow> Num (r * FIXED_RATE) | _ \<Rightarrow> NaN)"

definition normalizer :: "frame \<Rightarrow> error + frame" where
  "normalizer df0 =
     (let df = fold coerce_column numeric_cols df0
      in if ''FOB (USD)'' \<notin> set (columns df) \<or> series_sum (map FOB_USD (rows df)) = 0
         then (if ''FOB (INR)'' \<in> set (columns df)
               then Inr (df\<lparr>columns := List.insert ''FOB (USD)'' (columns df),
                            rows := map (\<lambda>r. r\<lparr>FOB_USD := times_rate (FOB_INR r)\<rparr>) (rows df)\<rparr>)
               else Inl (KeyError ''FOB (INR)''))
         else Inr df)"

section \<open>Aggregator and reporter\<close>

subsection \<open>Valid rows and the human-use filter\<close>

definition py_str :: "string option \<Rightarrow> string" where
  "py_str c = (case c of None \<Rightarrow> ''nan'' | Some s \<Rightarrow> s)"

text \<open>\<open>df["API"] = df["Product Name"].apply(extract_api)\<close>\<close>

definition add_api :: "frame \<Rightarrow> error + frame" where
  "add_api df =
     (if ''Product Name'' \<in> set (columns df)
      then Inr (df\<lparr>columns := List.insert ''API'' (columns df),
                   rows := map (\<lambda>r. r\<lparr>API := extract_api (py_str (Product_Name r))\<rparr>) (rows df)\<rparr>)
      else Inl (KeyError ''Product Name''))"

definition valid_df :: "frame \<Rightarrow> frame" where
  "valid_df df = df\<lparr>rows := filter (\<lambda>r. API r \<noteq> ''INVALID'') (rows df)\<rparr>"

text \<open>
  The pattern \<open>\b(TABLET|CAPSULE|INJECTION|SYRUP|CREAM|OINTMENT|DROPS)\b\<close>, searched without
  regard to case. \<open>\b\<close> holds between two neighbours of which exactly one is a word
  character; the edge of the text counts as a neighbour that is not one.
\<close>

definition is_word_char :: "char \<Rightarrow> bool" where
  "is_word_char c =
     (is_digit c \<or> upper_char c \<in> set ''ABCDEFGHIJKLMNOPQRSTUVWXYZ'' \<or> c = CHR ''_'')"

fun is_w :: "char option \<Rightarrow> bool" where
  "is_w None = False"
| "is_w (Some c) = is_word_char c"

definition word_boundary :: "char option \<Rightarrow> char option \<Rightarrow> bool" where
  "word_boundary a b = (is_w a \<noteq> is_w b)"

definition first_char :: "string \<Rightarrow> char option" where
  "first_char s = (case s of [] \<Rightarrow> None | c # _ \<Rightarrow> Some c)"

definition human_keywords :: "string list" where
  "human_keywords =
     [''TABLET'', ''CAPSULE'', ''INJECTION'', ''SYRUP'', ''CREAM'', ''OINTMENT'', ''DROPS'']"

text \<open>\<open>keyword_here prev k s\<close>: the pattern matches with keyword \<open>k\<close> at the start of \<open>s\<close>,
  where \<open>prev\<close> is the character before \<open>s\<close> in the whole text.\<close>

definition keyword_here :: "char option \<Rightarrow> string \<Rightarrow> string \<Rightarrow> bool" where
  "keyword_here prev k s =
     (word_boundary prev (first_char s)
      \<and> length k \<le> length s \<and> lit_eq True (take (length k) s) k
      \<and> word_boundary (if k = [] then prev else Some (last (take (length k) s)))
            (first_char (drop (length k) s)))"

fun search_human :: "char option \<Rightarrow> string \<Rightarrow> bool" where
  "search_human prev [] = list_ex (\<lambda>k. keyword_here prev k []) human_keywords"
| "search_human prev (c # cs) =
     (list_ex (\<lambda>k. keyword_here prev k (c # cs)) human_keywords \<or> search_human (Some c) cs)"

text \<open>
  \<open>.str.contains(human_indicators, case=False, na=False)\<close>. The flag tells whether the
  \<open>Product Name\<close> column of the uploaded table is a text column.
\<close>

definition is_human :: "string option \<Rightarrow> bool" where
  "is_human name = (case name of None \<Rightarrow> False | Some s \<Rightarrow> search_human None s)"

definition human_df :: "bool \<Rightarrow> frame \<Rightarrow> error + frame" where
  "human_df name_is_text vdf =
     (if name_is_text
      then Inr (vdf\<lparr>rows := filter (\<lambda>r. is_human (Product_Name r)) (rows vdf)\<rparr>)
      else Inl AttributeError)"

definition filtered_df :: "string \<Rightarrow> frame \<Rightarrow> frame" where
  "filtered_df api_filter hdf =
     (if api_filter = ''All'' then hdf
      else hdf\<lparr>rows := filter (\<lambda>r. API r = api_filter) (rows hdf)\<rparr>)"

subsection \<open>Top five APIs\<close>

text \<open>
  \<open>groupby("API")\<close> yields one group for each distinct key, in sorted key order;
  \<open>nlargest(5, "Total_Quantity")\<close> keeps the five largest totals, in descending order, and
  among equal totals the groups that come first.
\<close>

definition group_keys :: "row list \<Rightarrow> string list" where
  "group_keys rs = sort (remdups (map API rs))"

definition api_rows :: "string \<Rightarrow> row list \<Rightarrow> row list" where
  "api_rows api rs = filter (\<lambda>r. API r = api) rs"

definition nlargest :: "nat \<Rightarrow> ('a \<Rightarrow> rat) \<Rightarrow> 'a list \<Rightarrow> 'a list" where
  "nlargest n f xs = take n (sort_key (\<lambda>x. - f x) xs)"

definition top_apis :: "frame \<Rightarrow> error + string list" where
  "top_apis fdf =
     (if ''Quantity'' \<notin> set (columns fdf) then Inl (KeyError ''Quantity'')
      else if ''FOB (USD)'' \<notin> set (columns fdf) then Inl (KeyError ''FOB (USD)'')
      else Inr (nlargest 5 (\<lambda>api. series_sum (map Quantity (api_rows api (rows fdf))))
                  (group_keys (rows fdf))))"

subsection \<open>One record for each selected API\<close>

text \<open>\<open>Series.unique()\<close>: the distinct values in order of first appearance.\<close>

definition unique :: "'a list \<Rightarrow> 'a list" where
  "unique xs = rev (remdups (rev xs))"

fun py_join :: "string \<Rightarrow> string list \<Rightarrow> string" where
  "py_join sep [] = []"
| "py_join sep [x] = x"
| "py_join sep (x # y # ys) = x @ sep @ py_join sep (y # ys)"

text \<open>\<open>str.split()\<close> without arguments: the maximal runs of characters that are not whitespace.\<close>

definition py_split :: "string \<Rightarrow> string list" where
  "py_split s = filter (\<lambda>w. w \<noteq> []) (re_split is_space s)"

text \<open>
  \<open>str.extractall\<close> with the one-group pattern \<open>(\d+\s?MG|\d+\s?ML)\<close>: the matches found by
  scanning from left to right, each search resuming where the match before it ended.
\<close>

definition strength_pattern :: regex where
  "strength_pattern =
     Alt (Seq (Many1 is_digit) (Seq (Opt (Class is_space)) (Lit ''MG'')))
         (Seq (Many1 is_digit) (Seq (Opt (Class is_space)) (Lit ''ML'')))"

function find_all :: "regex \<Rightarrow> string \<Rightarrow> string list" where
  "find_all r s =
     (case rests False r s of
        [] \<Rightarrow> (case s of [] \<Rightarrow> [] | c # cs \<Rightarrow> find_all r cs)
      | rest # _ \<Rightarrow>
          (if length rest < length s
           then take (length s - length rest) s # find_all r rest
           else (case s of [] \<Rightarrow> [[]] | c # cs \<Rightarrow> [] # find_all r cs)))"
  by pat_completeness auto
termination
  by (relation "measure (\<lambda>(r, s). length s)") auto

definition strengths :: "row list \<Rightarrow> string list" where
  "strengths api_df =
     take 3 (unique (concat (map (\<lambda>r. case Product_Name r of
                                          None \<Rightarrow> []
                                        | Some s \<Rightarrow> find_all strength_pattern s) api_df)))"

text \<open>
  \<open>value_counts()\<close>: the distinct values that are not missing, by descending count. pandas
  does not document an order among equal counts; the model keeps first appearance.
\<close>

definition value_counts :: "string option list \<Rightarrow> string list" where
  "value_counts xs =
     (let vs = List.map_filter id xs
      in sort_key (\<lambda>v. - int (count_list vs v)) (unique vs))"

definition packaging :: "row list \<Rightarrow> string list" where
  "packaging api_df = take 3 (value_counts (map Unit api_df))"

text \<open>
  \<open>.str.split().str[0].mode()[0]\<close>: the first word of each name (NaN where there is none),
  then the modes, which pandas returns in sorted order, then the first of them.
\<close>

definition first_word :: "string option \<Rightarrow> string option" where
  "first_word name =
     (case name of
        None \<Rightarrow> None
      | Some s \<Rightarrow> (case py_split s of [] \<Rightarrow> None | w # _ \<Rightarrow> Some w))"

definition max_count :: "'a list \<Rightarrow> nat" where
  "max_count vs = fold (\<lambda>v m. max (count_list vs v) m) vs 0"

definition modes :: "string option list \<Rightarrow> string list" where
  "modes xs =
     (let vs = List.map_filter id xs
      in sort (filter (\<lambda>v. count_list vs v = max_count vs) (remdups vs)))"

definition category :: "row list \<Rightarrow> error + string" where
  "category api_df =
     (case modes (map (\<lambda>r. first_word (Product_Name r)) api_df) of
        [] \<Rightarrow> Inl (KeyError ''0'')
      | m # _ \<Rightarrow> Inr m)"

definition unit_in :: "string list \<Rightarrow> row \<Rightarrow> bool" where
  "unit_in names r = (case Unit r of None \<Rightarrow> False | Some u \<Rightarrow> py_upper u \<in> set names)"

text \<open>
  A division by zero is an outcome of its own: Python raises \<open>ZeroDivisionError\<close> and NumPy
  yields an infinity or NaN; neither is a number.
\<close>

definition py_div :: "rat \<Rightarrow> rat \<Rightarrow> error + rat" where
  "py_div a b = (if b = 0 then Inl ZeroDivision else Inr (a / b))"

record analysis_record =
  rec_API :: string
  Category :: string
  Export_Count :: nat
  Total_Shipments :: rat
  Common_Strengths :: string
  Avg_Qty_Export :: rat
  Packaging_Types :: string
  Total_Nos :: rat
  Total_Kg :: rat
  Avg_FOB_Pack :: rat
  Avg_Price_Unit :: rat

text \<open>
  The body of the loop \<open>for api in top_apis\<close>. The records are the dictionaries appended to
  \<open>analysis_data\<close>; the rounding to two decimals for display is not part of them. The flag
  tells whether the \<open>Unit\<close> column of the uploaded table is a text column; the entries of
  the dictionary are evaluated in the order in which they are written.
\<close>

definition analysis_record_for :: "bool \<Rightarrow> frame \<Rightarrow> string \<Rightarrow> error + analysis_record" where
  "analysis_record_for unit_is_text fdf api =
     (let api_df = api_rows api (rows fdf);
          strs = strengths api_df
      in if ''Unit'' \<notin> set (columns fdf) then Inl (KeyError ''Unit'')
         else
           (let packs = packaging api_df;
                qty = series_sum (map Quantity api_df);
                fob = series_sum (map FOB_USD api_df)
            in case category api_df of
                 Inl e \<Rightarrow> Inl e
               | Inr cat \<Rightarrow>
             (case py_div qty (of_nat (max (length api_df) 1)) of
                 Inl e \<Rightarrow> Inl e
               | Inr avg_qty \<Rightarrow>
             (if \<not> unit_is_text then Inl AttributeError
              else
             (case py_div fob (max qty 1) of
                 Inl e \<Rightarrow> Inl e
               | Inr avg_pack \<Rightarrow>
             (case py_div fob (max qty 1) of
                 Inl e \<Rightarrow> Inl e
               | Inr avg_unit \<Rightarrow>
                 Inr \<lparr>rec_API = api,
                      Category = cat,
                      Export_Count = length api_df,
                      Total_Shipments = qty,
                      Common_Strengths =
                        (if list_ex (\<lambda>s. s \<noteq> []) strs then py_join '', '' strs
                         else ''Standard''),
                      Avg_Qty_Export = avg_qty,
                      Packaging_Types =
                        (if packs \<noteq> [] then py_join '', '' packs else ''Various''),
                      Total_Nos =
                        series_sum (map Quantity (filter (unit_in [''NOS'']) api_df)),
                      Total_Kg =
                        series_sum (map Quantity (filter (unit_in [''KG'', ''KGS'']) api_df)),
                      Avg_FOB_Pack = avg_pack,
                      Avg_Price_Unit = avg_unit\<rparr>))))))"

text \<open>The loop stops at the first record that raises.\<close>

fun collect :: "('a \<Rightarrow> error + 'b) \<Rightarrow> 'a list \<Rightarrow> error + 'b list" where
  "collect f [] = Inr []"
| "collect f (x # xs) =
     (case f x of
        Inl e \<Rightarrow> Inl e
      | Inr y \<Rightarrow> (case collect f xs of Inl e \<Rightarrow> Inl e | Inr ys \<Rightarrow> Inr (y # ys)))"

definition analysis_data :: "bool \<Rightarrow> frame \<Rightarrow> error + analysis_record list" where
  "analysis_data unit_is_text fdf =
     (case top_apis fdf of
        Inl e \<Rightarrow> Inl e
      | Inr apis \<Rightarrow> collect (analysis_record_for unit_is_text fdf) apis)"

subsection \<open>The whole run\<close>

text \<open>
  A run ends with the report, with the warning that no valid data was found, or with an
  exception that nothing catches (\<open>Inl\<close>).
\<close>

datatype outcome = Report "analysis_record list" | No_Valid_Data

definition report :: "bool \<Rightarrow> frame \<Rightarrow> error + outcome" where
  "report unit_is_text fdf =
     (if rows fdf \<noteq> []
      then (case analysis_data unit_is_text fdf of
              Inl e \<Rightarrow> Inl e
            | Inr recs \<Rightarrow> Inr (Report recs))
      else Inr No_Valid_Data)"

definition valid_frame :: "frame \<Rightarrow> error + frame" where
  "valid_frame df =
     (case normalizer df of
        Inl e \<Rightarrow> Inl e
      | Inr df1 \<Rightarrow> (case add_api df1 of Inl e \<Rightarrow> Inl e | Inr df2 \<Rightarrow> Inr (valid_df df2)))"

definition filtered_frame :: "frame \<Rightarrow> string \<Rightarrow> error + frame" where
  "filtered_frame df api_filter =
     (case valid_frame df of
        Inl e \<Rightarrow> Inl e
      | Inr vdf \<Rightarrow>
          (case human_df (is_text_column Product_Name df) vdf of
             Inl e \<Rightarrow> Inl e
           | Inr hdf \<Rightarrow> Inr (filtered_df api_filter hdf)))"

definition pipeline :: "frame \<Rightarrow> string \<Rightarrow> error + outcome" where
  "pipeline df api_filter =
     (case filtered_frame df api_filter of
        Inl e \<Rightarrow> Inl e
      | Inr fdf \<Rightarrow> report (is_text_column Unit df) fdf)"

section \<open>The extraction rule as the specification words it\<close>

text \<open>
  The exclusion vocabulary and the separator characters, as the specification lists them.
\<close>

definition spec_vocabulary :: "string list" where
  "spec_vocabulary =
     [''PHARMACEUTICAL'', ''LIMITED'', ''PRIVATE'', ''HARMLESS'', ''EXPORT'', ''LAB'',
      ''LABS'', ''INDIA'', ''TABLET'', ''CAPSULE'', ''INJECTION'', ''SYRUP'', ''CREAM'',
      ''OINTMENT'', ''DROPS'', ''NOS'', ''KGS'', ''KG'']"

definition spec_separators :: "char list" where
  "spec_separators =
     [CHR ''-'', CHR ''+'', CHR ''/'', CHR ''('', CHR '')'', CHR '','', CHR ''.'', CHR ''%'',
      CHR '' '']"

definition spec_units :: "string list" where
  "spec_units = [''MG'', ''ML'', ''GM'', ''G'', ''KG'']"

text \<open>
  The dosage rule with the separator between the digits and the unit left open: one or more
  digits, at most one character of the class \<open>gap\<close>, then one of the units in any letter
  case.
\<close>

definition dosage_shape :: "(char \<Rightarrow> bool) \<Rightarrow> string \<Rightarrow> bool" where
  "dosage_shape gap t \<longleftrightarrow>
     (\<exists>ds sp u. t = ds @ sp @ u \<and> ds \<noteq> [] \<and> list_all is_digit ds
        \<and> (sp = [] \<or> (\<exists>c. sp = [c] \<and> gap c))
        \<and> py_upper u \<in> set spec_units)"

text \<open>
  The dosage rule as the specification words it: the optional character between the digits
  and the unit is a single space.
\<close>

definition spec_dosage_pattern :: "string \<Rightarrow> bool" where
  "spec_dosage_pattern t = dosage_shape (\<lambda>c. c = CHR '' '') t"

text \<open>
  The whitespace characters: tab, line feed, vertical tab, form feed, carriage return, the
  four information separators and the space. The dosage rule read with any one of them
  between the digits and the unit.
\<close>

definition spec_whitespace :: "char list" where
  "spec_whitespace =
     [CHR 0x09, CHR 0x0A, CHR 0x0B, CHR 0x0C, CHR 0x0D, CHR 0x1C, CHR 0x1D, CHR 0x1E,
      CHR 0x1F, CHR 0x20]"

definition whitespace_dosage_pattern :: "string \<Rightarrow> bool" where
  "whitespace_dosage_pattern t = dosage_shape (\<lambda>c. c \<in> set spec_whitespace) t"

text \<open>
  Upper-case the name, split it on the nine separator characters, trim the tokens, discard
  a token that is empty, in the exclusion vocabulary, a dosage, or shorter than four
  characters, and return the first token that is left, or the sentinel when there is none.
  The rule is given for either reading of the dosage rule.
\<close>

definition survives :: "(string \<Rightarrow> bool) \<Rightarrow> string \<Rightarrow> bool" where
  "survives dosage t \<longleftrightarrow>
     t \<noteq> [] \<and> t \<notin> set spec_vocabulary \<and> \<not> dosage t \<and> \<not> length t < 4"

definition first_surviving :: "(string \<Rightarrow> bool) \<Rightarrow> string \<Rightarrow> string" where
  "first_surviving dosage name =
     (case filter (survives dosage)
             (map py_strip (re_split (\<lambda>c. c \<in> set spec_separators) (py_upper name))) of
        [] \<Rightarrow> ''INVALID''
      | t # _ \<Rightarrow> t)"

definition spec_extract_api :: "string \<Rightarrow> string" where
  "spec_extract_api name = first_surviving spec_dosage_pattern name"

definition whitespace_extract_api :: "string \<Rightarrow> string" where
  "whitespace_extract_api name = first_surviving whitespace_dosage_pattern name"

text \<open>
  The text primitives follow Python on ASCII text; the statements about all product names
  are about names of ASCII characters.
\<close>

definition is_ascii :: "string \<Rightarrow> bool" where
  "is_ascii s = list_all (\<lambda>c. \<not> digit7 c) s"

section \<open>Notions used in the statements\<close>

text \<open>What the loop over \<open>numeric_cols\<close> makes of a cell of column \<open>col\<close>.\<close>

definition coerced :: "frame \<Rightarrow> string \<Rightarrow> cell \<Rightarrow> cell" where
  "coerced df col c = (if col \<in> set (columns df) then fillna0 (to_numeric c) else c)"

text \<open>
  What the specification asks of a numeric entry: a number is kept as it is, and an entry
  that cannot be parsed or is missing becomes 0.
\<close>

definition spec_coerced :: "cell \<Rightarrow> cell" where
  "spec_coerced c = (case c of Num v \<Rightarrow> Num v | Text s \<Rightarrow> Num 0 | NaN \<Rightarrow> Num 0)"

text \<open>
  The three numeric columns that the fallback does not write: in a row \<open>r\<close> of the
  normalized table each of them that the table has holds the value asked of the entry of the
  row \<open>r0\<close> it comes from.
\<close>

definition entries_coerced :: "frame \<Rightarrow> row \<Rightarrow> row \<Rightarrow> bool" where
  "entries_coerced df r0 r =
     list_all (\<lambda>col. col \<in> set (columns df) \<longrightarrow> num_field col r = spec_coerced (num_field col r0))
       [''Quantity'', ''FOB (INR)'', ''Item Rate(INR)'']"

text \<open>
  The two values a \<open>FOB (USD)\<close> entry can take: the entry of the input, coerced, or the
  \<open>FOB (INR)\<close> entry of the input, coerced, times 0.012.
\<close>

definition usd_kept :: "row \<Rightarrow> row \<Rightarrow> bool" where
  "usd_kept r0 r = (FOB_USD r = spec_coerced (FOB_USD r0))"

definition usd_from_inr :: "row \<Rightarrow> row \<Rightarrow> bool" where
  "usd_from_inr r0 r =
     (case spec_coerced (FOB_INR r0) of
        Num v \<Rightarrow> FOB_USD r = Num (v * (12 / 1000))
      | _ \<Rightarrow> False)"

definition is_num :: "cell \<Rightarrow> bool" where
  "is_num c = (case c of Num r \<Rightarrow> True | _ \<Rightarrow> False)"

text \<open>
  No cell of a numeric column that the table has holds a negative number; text and missing
  values do not count.
\<close>

definition not_negative :: "cell \<Rightarrow> bool" where
  "not_negative c = (case c of Num r \<Rightarrow> 0 \<le> r | _ \<Rightarrow> True)"

definition no_negative_entries :: "frame \<Rightarrow> bool" where
  "no_negative_entries df =
     list_all (\<lambda>r. list_all (\<lambda>col. col \<in> set (columns df) \<longrightarrow> not_negative (num_field col r))
                      numeric_cols) (rows df)"

text \<open>The rows of one API in a table, and the totals over them.\<close>

definition group_quantity :: "frame \<Rightarrow> string \<Rightarrow> rat" where
  "group_quantity fdf api = series_sum (map Quantity (api_rows api (rows fdf)))"

definition group_fob :: "frame \<Rightarrow> string \<Rightarrow> rat" where
  "group_fob fdf api = series_sum (map FOB_USD (api_rows api (rows fdf)))"

text \<open>The first words of the product names of one API, in row order.\<close>

definition first_words :: "frame \<Rightarrow> string \<Rightarrow> string list" where
  "first_words fdf api =
     List.map_filter (\<lambda>r. first_word (Product_Name r)) (api_rows api (rows fdf))"

text \<open>The number of distinct API tokens in a table.\<close>

definition distinct_api_count :: "frame \<Rightarrow> nat" where
  "distinct_api_count fdf = card (API ` set (rows fdf))"

section \<open>Example tables\<close>

text \<open>A row with every cell missing; the examples fill in the cells of the columns they have.\<close>

definition blank_row :: row where
  "blank_row =
     \<lparr>Product_Name = None, Unit = None, Quantity = NaN, FOB_INR = NaN,
      Item_Rate_INR = NaN, FOB_USD = NaN, API = []\<rparr>"

definition table_without_fob :: frame where
  "table_without_fob =
     \<lparr>columns = [''Product Name'', ''Unit'', ''Quantity''],
      rows = [blank_row\<lparr>Product_Name := Some ''PARACETAMOL 500MG TABLET'',
                         Unit := Some ''NOS'', Quantity := Num 10\<rparr>]\<rparr>"

definition table_negative_quantity :: frame where
  "table_negative_quantity =
     \<lparr>columns = [''Product Name'', ''Unit'', ''Quantity'', ''FOB (INR)'', ''Item Rate(INR)'',
                 ''FOB (USD)''],
      rows = [blank_row\<lparr>Product_Name := Some ''PARACETAMOL 500MG TABLET'',
                         Unit := Some ''NOS'', Quantity := Num (- 5), FOB_INR := Num 1000,
                         Item_Rate_INR := Num 200, FOB_USD := Num 12\<rparr>]\<rparr>"

definition table_usd_unusable :: frame where
  "table_usd_unusable =
     \<lparr>columns = [''Product Name'', ''Unit'', ''Quantity'', ''FOB (INR)'', ''FOB (USD)''],
      rows = [blank_row\<lparr>Product_Name := Some ''PARACETAMOL 500MG TABLET'',
                         Unit := Some ''NOS'', Quantity := Num 10, FOB_INR := Num 1000,
                         FOB_USD := Text ''-''\<rparr>]\<rparr>"

definition table_usd_zero_without_inr :: frame where
  "table_usd_zero_without_inr =
     \<lparr>columns = [''Product Name'', ''Unit'', ''Quantity'', ''FOB (USD)''],
      rows = [blank_row\<lparr>Product_Name := Some ''PARACETAMOL 500MG TABLET'',
                         Unit := Some ''NOS'', Quantity := Num 10, FOB_USD := Num 0\<rparr>]\<rparr>"

definition table_mixed_entries :: frame where
  "table_mixed_entries =
     \<lparr>columns = [''Product Name'', ''Unit'', ''Quantity'', ''FOB (INR)'', ''Item Rate(INR)'',
                 ''FOB (USD)''],
      rows = [blank_row\<lparr>Product_Name := Some ''PARACETAMOL 500MG TABLET'',
                         Unit := Some ''NOS'', Quantity := Num (- 5), FOB_INR := Text ''n/a'',
                         Item_Rate_INR := NaN, FOB_USD := Num 12\<rparr>,
              blank_row\<lparr>Product_Name := Some ''IBUPROFEN 400MG TABLET'',
                         Unit := Some ''NOS'', Quantity := Text ''ten'', FOB_INR := Num 2000,
                         Item_Rate_INR := Num 50, FOB_USD := NaN\<rparr>]\<rparr>"

definition table_zero_quantity :: frame where
  "table_zero_quantity =
     \<lparr>columns = [''Product Name'', ''Unit'', ''Quantity'', ''FOB (INR)'', ''FOB (USD)''],
      rows = [blank_row\<lparr>Product_Name := Some ''PARACETAMOL TABLET'', Unit := Some ''NOS'',
                         Quantity := Num 0, FOB_INR := Num 8000, FOB_USD := Num 100\<rparr>]\<rparr>"

definition table_tied_words :: frame where
  "table_tied_words =
     \<lparr>columns = [''Product Name'', ''Unit'', ''Quantity'', ''FOB (INR)''],
      rows = [blank_row\<lparr>Product_Name := Some ''PARACETAMOL 500MG TABLET'',
                         Unit := Some ''NOS'', Quantity := Num 10, FOB_INR := Num 1000\<rparr>,
              blank_row\<lparr>Product_Name := Some ''500MG PARACETAMOL TABLET'',
                         Unit := Some ''NOS'', Quantity := Num 10, FOB_INR := Num 1000\<rparr>]\<rparr>"

definition tied_words_filtered :: frame where
  "tied_words_filtered =
     \<lparr>columns = [''API'', ''FOB (USD)'', ''Product Name'', ''Unit'', ''Quantity'', ''FOB (INR)''],
      rows = [blank_row\<lparr>Product_Name := Some ''PARACETAMOL 500MG TABLET'',
                         Unit := Some ''NOS'', Quantity := Num 10, FOB_INR := Num 1000,
                         FOB_USD := Num 12, API := ''PARACETAMOL''\<rparr>,
              blank_row\<lparr>Product_Name := Some ''500MG PARACETAMOL TABLET'',
                         Unit := Some ''NOS'', Quantity := Num 10, FOB_INR := Num 1000,
                         FOB_USD := Num 12, API := ''PARACETAMOL''\<rparr>]\<rparr>"

definition table_without_unit :: frame where
  "table_without_unit =
     \<lparr>columns = [''Product Name'', ''Quantity'', ''FOB (INR)''],
      rows = [blank_row\<lparr>Product_Name := Some ''PARACETAMOL 500MG TABLET'',
                         Quantity := Num 10, FOB_INR := Num 1000\<rparr>]\<rparr>"

definition table_without_name :: frame where
  "table_without_name =
     \<lparr>columns = [''Unit'', ''Quantity'', ''FOB (INR)''],
      rows = [blank_row\<lparr>Unit := Some ''NOS'', Quantity := Num 10, FOB_INR := Num 1000\<rparr>]\<rparr>"

definition table_invalid_syrup :: frame where
  "table_invalid_syrup =
     \<lparr>columns = [''Product Name'', ''Unit'', ''Quantity'', ''FOB (INR)''],
      rows = [blank_row\<lparr>Product_Name := Some ''INVALID SYRUP'', Unit := Some ''NOS'',
                         Quantity := Num 10, FOB_INR := Num 1000\<rparr>]\<rparr>"

definition sample_table :: frame where
  "sample_table =
     \<lparr>columns = [''Product Name'', ''Unit'', ''Quantity'', ''FOB (INR)''],
      rows = [blank_row\<lparr>Product_Name := Some ''Paracetamol 500mg Tablet'',
                         Unit := Some ''NOS'', Quantity := Num 10, FOB_INR := Num 1000\<rparr>,
              blank_row\<lparr>Product_Name := Some ''Amoxicillin Capsule 250 MG'',
                         Unit := Some ''KGS'', Quantity := Num 0, FOB_INR := Num 500\<rparr>,
              blank_row\<lparr>Product_Name := Some ''PARACETAMOL SYRUP 60ML'',
                         Unit := Some ''NOS'', Quantity := Num 30, FOB_INR := Num 2000\<rparr>,
              blank_row\<lparr>Product_Name := Some ''XYZ POWDER'',
                         Unit := Some ''KG'', Quantity := Num 5, FOB_INR := Num 100\<rparr>]\<rparr>"

definition sample_filtered :: frame where
  "sample_filtered =
     \<lparr>columns = [''API'', ''FOB (USD)'', ''Product Name'', ''Unit'', ''Quantity'', ''FOB (INR)''],
      rows = [blank_row\<lparr>Product_Name := Some ''Paracetamol 500mg Tablet'',
                         Unit := Some ''NOS'', Quantity := Num 10, FOB_INR := Num 1000,
                         FOB_USD := Num 12, API := ''PARACETAMOL''\<rparr>,
              blank_row\<lparr>Product_Name := Some ''Amoxicillin Capsule 250 MG'',
                         Unit := Some ''KGS'', Quantity := Num 0, FOB_INR := Num 500,
                         FOB_USD := Num 6, API := ''AMOXICILLIN''\<rparr>,
              blank_row\<lparr>Product_Name := Some ''PARACETAMOL SYRUP 60ML'',
                         Unit := Some ''NOS'', Quantity := Num 30, FOB_INR := Num 2000,
                         FOB_USD := Num 24, API := ''PARACETAMOL''\<rparr>]\<rparr>"

section \<open>Properties of the text primitives\<close>

lemma upper_char_idem: "upper_char (upper_char c) = upper_char c"
  by (auto simp: upper_char_def split: option.splits if_splits)

lemma py_upper_idem: "py_upper (py_upper s) = py_upper s"
  by (simp add: py_upper_def upper_char_idem)

lemma py_upper_fixed: "set t \<subseteq> set (py_upper s) \<Longrightarrow> py_upper t = t"
  unfolding py_upper_def by (induction t) (auto simp: upper_char_idem)

lemma re_split_nonempty: "re_split sep s \<noteq> []"
  by (induction s) (auto split: list.splits)

lemma re_split_pieces: "t \<in> set (re_split sep s) \<Longrightarrow> set t \<subseteq> set s \<and> (\<forall>c \<in> set t. \<not> sep c)"
proof (induction s arbitrary: t)
  case Nil
  then show ?case by simp
next
  case (Cons c cs)
  show ?case
  proof (cases "sep c")
    case True
    with Cons show ?thesis by auto
  next
    case False
    obtain u us where us: "re_split sep cs = u # us"
      using re_split_nonempty [of sep cs] by (cases "re_split sep cs") auto
    with False Cons.prems have "t = c # u \<or> t \<in> set us" by auto
    then show ?thesis
    proof
      assume "t = c # u"
      moreover have "set u \<subseteq> set cs \<and> (\<forall>c \<in> set u. \<not> sep c)"
        using Cons.IH [of u] us by simp
      ultimately show ?thesis using False by auto
    next
      assume "t \<in> set us"
      then have "set t \<subseteq> set cs \<and> (\<forall>c \<in> set t. \<not> sep c)"
        using Cons.IH [of t] us by simp
      then show ?thesis by auto
    qed
  qed
qed

lemma re_split_single: "\<forall>c \<in> set s. \<not> sep c \<Longrightarrow> re_split sep s = [s]"
  by (induction s) auto

lemma set_py_strip: "set (py_strip s) \<subseteq> set s"
  unfolding py_strip_def
  by (metis set_rev set_dropWhileD subsetI)

lemma py_strip_last: 
  assumes "py_strip s = ys @ [c]"
  shows "\<not> is_space c"
proof -
  let ?b = "dropWhile is_space (rev (dropWhile is_space s))"
  from assms have "rev ?b = ys @ [c]" by (simp add: py_strip_def)
  then have "?b = rev (ys @ [c])" by (metis rev_rev_ident)
  then have b: "?b = c # rev ys" by simp
  then have "?b \<noteq> []" by simp
  then have "\<not> is_space (hd ?b)" by (rule hd_dropWhile)
  with b show ?thesis by simp
qed

lemma py_strip_hd:
  assumes "py_strip s = c # ys"
  shows "\<not> is_space c"
proof -
  let ?a = "dropWhile is_space s"
  let ?b = "dropWhile is_space (rev ?a)"
  from assms have "rev ?b = c # ys" by (simp add: py_strip_def)
  moreover have "rev ?a = takeWhile is_space (rev ?a) @ ?b" by simp
  then have "?a = rev ?b @ rev (takeWhile is_space (rev ?a))"
    by (metis rev_append rev_rev_ident)
  ultimately have a: "?a = c # ys @ rev (takeWhile is_space (rev ?a))" by simp
  then have "?a \<noteq> []" by (metis list.distinct(1))
  then have "\<not> is_space (hd ?a)" by (rule hd_dropWhile)
  with a show ?thesis by (metis list.sel(1))
qed

lemma py_strip_fixed:
  assumes "t \<noteq> []" "\<not> is_space (hd t)" "\<not> is_space (last t)"
  shows "py_strip t = t"
proof -
  from assms have "dropWhile is_space t = t" by (cases t) auto
  moreover from assms have "dropWhile is_space (rev t) = rev t"
    by (cases "rev t") (auto simp: last_rev hd_rev dest: arg_cong [where f = hd])
  ultimately show ?thesis by (simp add: py_strip_def)
qed

lemma py_strip_idem: "py_strip (py_strip s) = py_strip s"
proof (cases "py_strip s = []")
  case True
  have "py_strip [] = []" by (simp add: py_strip_def)
  with True show ?thesis by simp
next
  case False
  then obtain c ys where 1: "py_strip s = c # ys" by (cases "py_strip s") auto
  from False obtain zs d where 2: "py_strip s = zs @ [d]" by (cases "py_strip s" rule: rev_cases) auto
  have "\<not> is_space (hd (py_strip s))" using py_strip_hd [OF 1] 1 by simp
  moreover have "\<not> is_space (last (py_strip s))" using py_strip_last [OF 2] 2 by simp
  ultimately show ?thesis using False by (rule_tac py_strip_fixed) auto
qed

lemma rests_many_iff:
  "r \<in> set (rests_many p s) \<longleftrightarrow> (\<exists>ds. ds \<noteq> [] \<and> list_all p ds \<and> s = ds @ r)"
proof (induction s)
  case Nil
  then show ?case by simp
next
  case (Cons c cs)
  show ?case
  proof
    assume "r \<in> set (rests_many p (c # cs))"
    then have pc: "p c" and r: "r \<in> set (rests_many p cs) \<or> r = cs"
      by (auto split: if_splits)
    from r show "\<exists>ds. ds \<noteq> [] \<and> list_all p ds \<and> c # cs = ds @ r"
    proof
      assume "r \<in> set (rests_many p cs)"
      with Cons.IH obtain ds where "ds \<noteq> []" "list_all p ds" "cs = ds @ r" by blast
      with pc have "c # ds \<noteq> [] \<and> list_all p (c # ds) \<and> c # cs = (c # ds) @ r" by simp
      then show ?thesis by blast
    next
      assume "r = cs"
      with pc have "[c] \<noteq> [] \<and> list_all p [c] \<and> c # cs = [c] @ r" by simp
      then show ?thesis by blast
    qed
  next
    assume "\<exists>ds. ds \<noteq> [] \<and> list_all p ds \<and> c # cs = ds @ r"
    then obtain ds where ds: "ds \<noteq> []" "list_all p ds" "c # cs = ds @ r" by blast
    then obtain ds' where ds': "ds = c # ds'" by (cases ds) auto
    with ds have pc: "p c" and all: "list_all p ds'" and cs: "cs = ds' @ r" by auto
    show "r \<in> set (rests_many p (c # cs))"
    proof (cases "ds' = []")
      case True
      with pc cs show ?thesis by simp
    next
      case False
      with all cs Cons.IH have "r \<in> set (rests_many p cs)" by blast
      with pc show ?thesis by simp
    qed
  qed
qed

lemma rests_Class_iff: "r \<in> set (rests ic (Class p) s) \<longleftrightarrow> (\<exists>c. p c \<and> s = c # r)"
  by (cases s) auto

lemma rests_Lit_iff:
  "r \<in> set (rests ic (Lit w) s) \<longleftrightarrow> (\<exists>u. s = u @ r \<and> length u = length w \<and> lit_eq ic u w)"
proof
  assume "r \<in> set (rests ic (Lit w) s)"
  then have "length w \<le> length s" "lit_eq ic (take (length w) s) w" "r = drop (length w) s"
    by (auto split: if_splits)
  then have "s = take (length w) s @ r \<and> length (take (length w) s) = length w
      \<and> lit_eq ic (take (length w) s) w" by simp
  then show "\<exists>u. s = u @ r \<and> length u = length w \<and> lit_eq ic u w" by blast
next
  assume "\<exists>u. s = u @ r \<and> length u = length w \<and> lit_eq ic u w"
  then show "r \<in> set (rests ic (Lit w) s)" by auto
qed


lemma lit_eq_upper: "py_upper w = w \<Longrightarrow> (length u = length w \<and> lit_eq True u w) \<longleftrightarrow> py_upper u = w"
  by (auto simp: lit_eq_def py_upper_def dest: arg_cong [where f = length])

lemma rests_units_iff:
  "rest \<in> set (rests True (Alt (Lit ''MG'') (Alt (Lit ''ML'') (Alt (Lit ''GM'') (Alt (Lit ''G'') (Lit ''KG''))))) r)
   \<longleftrightarrow> (\<exists>u. r = u @ rest \<and> py_upper u \<in> set [''MG'', ''ML'', ''GM'', ''G'', ''KG''])"
proof -
  have up: "py_upper ''MG'' = ''MG''" "py_upper ''ML'' = ''ML''" "py_upper ''GM'' = ''GM''"
    "py_upper ''G'' = ''G''" "py_upper ''KG'' = ''KG''"
    by (simp_all add: py_upper_def upper_char_def)
  have "rest \<in> set (rests True (Lit w) r) \<longleftrightarrow> (\<exists>u. r = u @ rest \<and> py_upper u = w)"
    if "py_upper w = w" for w
    using lit_eq_upper [OF that] unfolding rests_Lit_iff by blast
  note lit = this
  show ?thesis
    unfolding rests.simps(5) set_append Un_iff lit [OF up(1)] lit [OF up(2)] lit [OF up(3)]
      lit [OF up(4)] lit [OF up(5)]
    by (simp only: set_simps insert_iff empty_iff) blast
qed

lemma rests_Seq_iff:
  "r \<in> set (rests ic (Seq a b) s) \<longleftrightarrow> (\<exists>m. m \<in> set (rests ic a s) \<and> r \<in> set (rests ic b m))"
  by auto

lemma rests_Opt_iff: "r \<in> set (rests ic (Opt a) s) \<longleftrightarrow> r \<in> set (rests ic a s) \<or> r = s"
  by auto

lemma rests_Many1_iff:
  "r \<in> set (rests ic (Many1 p) s) \<longleftrightarrow> (\<exists>ds. ds \<noteq> [] \<and> list_all p ds \<and> s = ds @ r)"
  by (simp add: rests_many_iff)

lemma rests_dosage_iff:
  "rest \<in> set (rests True dosage_pattern t) \<longleftrightarrow> (\<exists>u. t = u @ rest \<and> dosage_shape is_space u)"
  (is "?L \<longleftrightarrow> ?R")
proof
  assume ?L
  then obtain ds m m2 u where ds: "ds \<noteq> []" "list_all is_digit ds" "t = ds @ m"
    and sp: "(\<exists>c. is_space c \<and> m = c # m2) \<or> m2 = m"
    and u: "m2 = u @ rest" "py_upper u \<in> set [''MG'', ''ML'', ''GM'', ''G'', ''KG'']"
    unfolding dosage_pattern_def rests_Seq_iff rests_Opt_iff rests_units_iff rests_Class_iff
      rests_Many1_iff by blast
  from sp obtain sp' where sp': "m = sp' @ m2" "sp' = [] \<or> (\<exists>c. sp' = [c] \<and> is_space c)"
    by auto
  have "t = (ds @ sp' @ u) @ rest" using ds sp' u by simp
  moreover have "dosage_shape is_space (ds @ sp' @ u)"
    unfolding dosage_shape_def spec_units_def using ds sp' u by blast
  ultimately show ?R by blast
next
  assume ?R
  then obtain ds sp u where t: "t = (ds @ sp @ u) @ rest" and ds: "ds \<noteq> []" "list_all is_digit ds"
    and sp: "sp = [] \<or> (\<exists>c. sp = [c] \<and> is_space c)"
    and u: "py_upper u \<in> set [''MG'', ''ML'', ''GM'', ''G'', ''KG'']"
    unfolding dosage_shape_def spec_units_def by blast
  have 1: "\<exists>ds'. ds' \<noteq> [] \<and> list_all is_digit ds' \<and> t = ds' @ (sp @ u @ rest)"
    using t ds by auto
  have 2: "(\<exists>c. is_space c \<and> sp @ u @ rest = c # (u @ rest)) \<or> u @ rest = sp @ u @ rest"
    using sp by auto
  have 3: "\<exists>u'. u @ rest = u' @ rest \<and> py_upper u' \<in> set [''MG'', ''ML'', ''GM'', ''G'', ''KG'']"
    using u by blast
  show ?L
    unfolding dosage_pattern_def rests_Seq_iff rests_Opt_iff rests_units_iff rests_Class_iff
      rests_Many1_iff using 1 2 3 by blast
qed

lemma match_dosage_iff:
  "match_to_end True dosage_pattern t \<longleftrightarrow>
     dosage_shape is_space t \<or> (\<exists>u. t = u @ [CHR 0x0A] \<and> dosage_shape is_space u)"
  unfolding match_to_end_def list_ex_iff Bex_def
  using rests_dosage_iff by auto

lemma is_invalid_strip:
  "is_invalid (py_strip s) \<longleftrightarrow> dosage_shape is_space (py_strip s) \<or> length (py_strip s) < 4"
proof -
  have "\<not> (\<exists>u. py_strip s = u @ [CHR 0x0A])"
    using py_strip_last [of s] by (auto simp: is_space_def)
  then show ?thesis by (simp add: is_invalid_def match_dosage_iff)
qed

lemma is_separator_eq: "is_separator = (\<lambda>c. c \<in> set spec_separators)"
  by (rule ext) (simp add: is_separator_def spec_separators_def)

lemma is_space_eq: "(\<lambda>c. c \<in> set spec_whitespace) = is_space"
  by (rule ext) (simp add: is_space_def spec_whitespace_def)

lemma exclude_terms_eq: "exclude_terms = spec_vocabulary"
  by (simp add: exclude_terms_def spec_vocabulary_def)

lemma valid_tokens_spec:
  "valid_tokens name =
     filter (survives whitespace_dosage_pattern)
       (map py_strip (re_split is_separator (py_upper name)))"
proof -
  have eq: "whitespace_dosage_pattern = dosage_shape is_space"
    by (rule ext) (simp add: whitespace_dosage_pattern_def is_space_eq)
  show ?thesis
    unfolding valid_tokens_def Let_def filter_map eq
    by (rule arg_cong [where f = "map py_strip"], rule filter_cong)
       (auto simp: survives_def is_invalid_strip exclude_terms_eq)
qed

lemma extract_api_whitespace: "extract_api name = whitespace_extract_api name"
  by (simp add: extract_api_def whitespace_extract_api_def first_surviving_def
      valid_tokens_spec is_separator_eq)

text \<open>A token with a tab between the digits and the unit is no dosage with a single space.\<close>

lemma dosage_shape_chars:
  assumes "dosage_shape gap t" and "c \<in> set t"
  shows "is_digit c \<or> gap c \<or> upper_char c \<in> set ''MGLK''"
proof -
  from assms(1) obtain ds sp u where t: "t = ds @ sp @ u"
    and ds: "list_all is_digit ds" and sp: "sp = [] \<or> (\<exists>d. sp = [d] \<and> gap d)"
    and u: "py_upper u \<in> set spec_units"
    unfolding dosage_shape_def by blast
  from assms(2) have "c \<in> set ds \<or> c \<in> set sp \<or> c \<in> set u" unfolding t by simp
  then show ?thesis
  proof (elim disjE)
    assume "c \<in> set ds"
    with ds show ?thesis by (simp add: list_all_iff)
  next
    assume "c \<in> set sp"
    with sp show ?thesis by auto
  next
    assume "c \<in> set u"
    then have "upper_char c \<in> set (py_upper u)" by (simp add: py_upper_def)
    moreover have "set (py_upper u) \<subseteq> set ''MGLK''"
      using u unfolding spec_units_def by auto
    ultimately show ?thesis by blast
  qed
qed

lemma tab_token_no_dosage: "\<not> spec_dosage_pattern (''500'' @ [CHR 0x09] @ ''MG'')"
proof
  assume "spec_dosage_pattern (''500'' @ [CHR 0x09] @ ''MG'')"
  then have d: "dosage_shape (\<lambda>c. c = CHR '' '') (''500'' @ [CHR 0x09] @ ''MG'')"
    by (simp only: spec_dosage_pattern_def)
  have m: "CHR 0x09 \<in> set (''500'' @ [CHR 0x09] @ ''MG'')" by simp
  have "\<not> (is_digit (CHR 0x09) \<or> CHR 0x09 = CHR '' '' \<or> upper_char (CHR 0x09) \<in> set ''MGLK'')"
    by code_simp
  with dosage_shape_chars [OF d m] show False by simp
qed

lemma tab_name_tokens:
  "map py_strip (re_split (\<lambda>c. c \<in> set spec_separators)
     (py_upper (''500'' @ [CHR 0x09] @ ''MG ASPIRIN''))) = [''500'' @ [CHR 0x09] @ ''MG'', ''ASPIRIN'']"
  by code_simp

lemma tab_token_survives: "survives spec_dosage_pattern (''500'' @ [CHR 0x09] @ ''MG'')"
  unfolding survives_def using tab_token_no_dosage
  by (simp add: spec_vocabulary_def)

lemma valid_token_fixed:
  assumes "t \<in> set (valid_tokens name)"
  shows "valid_tokens t = [t]"
proof -
  from assms obtain t0 where t0: "t0 \<in> set (re_split is_separator (py_upper name))"
    and t: "t = py_strip t0" and ok: "t \<noteq> []" "t \<notin> set exclude_terms" "\<not> is_invalid t"
    by (auto simp: valid_tokens_def)
  have sub: "set t \<subseteq> set t0" using t set_py_strip by simp
  with re_split_pieces [OF t0] have "set t \<subseteq> set (py_upper name)" and nosep: "\<forall>c \<in> set t. \<not> is_separator c"
    by auto
  then have "py_upper t = t" by (simp add: py_upper_fixed)
  moreover have "re_split is_separator t = [t]" using nosep by (rule re_split_single)
  moreover have "py_strip t = t" using t by (simp add: py_strip_idem)
  ultimately show ?thesis using ok by (simp add: valid_tokens_def)
qed

lemma extract_api_sentinel: "extract_api ''INVALID'' = ''INVALID''"
  by code_simp

section \<open>API extraction: the claims\<close>

text \<open>
  C1, as the specification states it, does not hold: with the dosage rule read as digits, an
  optional single space, then a unit, the token \<open>500<TAB>MG\<close> of the name
  \<open>500<TAB>MG ASPIRIN\<close> is no dosage and is the first token that is left, whereas
  \<open>extract_api\<close> discards it and returns \<open>ASPIRIN\<close>.
\<close>

theorem extract_api_tab_dosage:
  "extract_api (''500'' @ [CHR 0x09] @ ''MG ASPIRIN'') = ''ASPIRIN''
   \<and> spec_extract_api (''500'' @ [CHR 0x09] @ ''MG ASPIRIN'') = ''500'' @ [CHR 0x09] @ ''MG''"
proof -
  have "extract_api (''500'' @ [CHR 0x09] @ ''MG ASPIRIN'') = ''ASPIRIN''"
    by code_simp
  moreover have "spec_extract_api (''500'' @ [CHR 0x09] @ ''MG ASPIRIN'')
      = ''500'' @ [CHR 0x09] @ ''MG''"
    unfolding spec_extract_api_def first_surviving_def tab_name_tokens
    using tab_token_survives by simp
  ultimately show ?thesis by (rule conjI)
qed

text \<open>
  C1, amended. For every product name of ASCII characters, \<open>extract_api\<close> upper-cases the
  name, splits it on the characters \<open>- + / ( ) , . %\<close> and space, discards the tokens that
  are, after trimming of whitespace, empty, in the exclusion vocabulary (PHARMACEUTICAL,
  LIMITED, PRIVATE, HARMLESS, EXPORT, LAB, LABS, INDIA, TABLET, CAPSULE, INJECTION, SYRUP,
  CREAM, OINTMENT, DROPS, NOS, KGS, KG), dosages (one or more digits, an optional single
  whitespace character, then MG, ML, GM, G or KG in any letter case) or shorter than four
  characters, and returns the first token that is left, or \<open>INVALID\<close> when none is. In
  particular \<open>PARACETAMOL 500MG TABLET\<close> gives \<open>PARACETAMOL\<close> and \<open>ABC\<close> gives
  \<open>INVALID\<close>; \<open>Tablet 1000mg Labs Ibuprofen\<close> gives \<open>IBUPROFEN\<close>, which takes the
  vocabulary and the dosage rule, \<open>LAB<TAB> ASPIRIN\<close> gives \<open>ASPIRIN\<close>, which takes the
  trimming, and \<open>500<TAB>MG ASPIRIN\<close> gives \<open>ASPIRIN\<close>.
\<close>

theorem extract_api_meets_spec:
  assumes "is_ascii name"
  shows "extract_api name = whitespace_extract_api name
   \<and> extract_api ''PARACETAMOL 500MG TABLET'' = ''PARACETAMOL''
   \<and> extract_api ''ABC'' = ''INVALID''
   \<and> extract_api ''Tablet 1000mg Labs Ibuprofen'' = ''IBUPROFEN''
   \<and> extract_api (''LAB'' @ [CHR 0x09] @ '' ASPIRIN'') = ''ASPIRIN''
   \<and> whitespace_extract_api (''500'' @ [CHR 0x09] @ ''MG ASPIRIN'') = ''ASPIRIN''"
proof -
  have "extract_api name = whitespace_extract_api name"
    by (rule extract_api_whitespace)
  moreover have "extract_api ''PARACETAMOL 500MG TABLET'' = ''PARACETAMOL''"
    by code_simp
  moreover have "extract_api ''ABC'' = ''INVALID''"
    by code_simp
  moreover have "extract_api ''Tablet 1000mg Labs Ibuprofen'' = ''IBUPROFEN''"
    by code_simp
  moreover have "extract_api (''LAB'' @ [CHR 0x09] @ '' ASPIRIN'') = ''ASPIRIN''"
    by code_simp
  moreover have "whitespace_extract_api (''500'' @ [CHR 0x09] @ ''MG ASPIRIN'') = ''ASPIRIN''"
    unfolding extract_api_whitespace [symmetric] by code_simp
  ultimately show ?thesis by (intro conjI)
qed

theorem extract_api_meets_spec_witness:
  "is_ascii ''Amoxicillin+Clavulanic acid 625 mg (tablet)''
   \<and> whitespace_extract_api ''Amoxicillin+Clavulanic acid 625 mg (tablet)'' = ''AMOXICILLIN''"
proof -
  have a: "is_ascii ''Amoxicillin+Clavulanic acid 625 mg (tablet)''"
    by code_simp
  have "extract_api ''Amoxicillin+Clavulanic acid 625 mg (tablet)'' = ''AMOXICILLIN''"
    by code_simp
  with extract_api_meets_spec [OF a] a show ?thesis by simp
qed

text \<open>
  C9. \<open>extract_api\<close> is idempotent on its output: the token it returns for a name, given
  back to it as a name of one token, yields that token again or \<open>INVALID\<close>.
\<close>

theorem extract_api_idempotent:
  "extract_api (extract_api name) = extract_api name
   \<or> extract_api (extract_api name) = ''INVALID''"
proof (cases "valid_tokens name")
  case Nil
  then have "extract_api name = ''INVALID''" by (simp add: extract_api_def)
  then show ?thesis by (simp add: extract_api_sentinel)
next
  case (Cons t ts)
  then have "extract_api name = t" by (simp add: extract_api_def)
  moreover have "valid_tokens t = [t]" using Cons valid_token_fixed [of t name] by simp
  ultimately show ?thesis by (simp add: extract_api_def)
qed

theorem extract_api_idempotent_witness:
  "extract_api ''PARACETAMOL'' = ''PARACETAMOL''"
proof -
  have 1: "extract_api ''Paracetamol 500mg Tablet'' = ''PARACETAMOL''" by code_simp
  have 2: "extract_api ''PARACETAMOL'' \<noteq> ''INVALID''" by code_simp
  from extract_api_idempotent [of "''Paracetamol 500mg Tablet''"] 1 2
  show ?thesis by simp
qed

section \<open>Normalizer: lemmas\<close>

lemma coerce_columns [simp]: "columns (fold coerce_column numeric_cols df) = columns df"
  by (simp add: numeric_cols_def coerce_column_def)

lemma coerce_rows:
  "rows (fold coerce_column numeric_cols df) =
     map (\<lambda>r. r\<lparr>Quantity := coerced df ''Quantity'' (Quantity r),
                 FOB_INR := coerced df ''FOB (INR)'' (FOB_INR r),
                 Item_Rate_INR := coerced df ''Item Rate(INR)'' (Item_Rate_INR r),
                 FOB_USD := coerced df ''FOB (USD)'' (FOB_USD r)\<rparr>) (rows df)"
  by (simp add: numeric_cols_def coerce_column_def num_field_def set_num_field_def coerced_def)

lemma is_num_coerce: "is_num (fillna0 (to_numeric c))"
  by (cases c) (simp_all add: is_num_def fillna0_def to_numeric_def)

lemma not_negative_coerce: "not_negative c \<Longrightarrow> not_negative (fillna0 (to_numeric c))"
  by (cases c) (simp_all add: not_negative_def fillna0_def to_numeric_def)

lemma normalizer_cases:
  "normalizer df =
     (if ''FOB (USD)'' \<in> set (columns df)
         \<and> series_sum (map (\<lambda>r. fillna0 (to_numeric (FOB_USD r))) (rows df)) \<noteq> 0
      then Inr (fold coerce_column numeric_cols df)
      else if ''FOB (INR)'' \<in> set (columns df)
      then Inr \<lparr>columns = List.insert ''FOB (USD)'' (columns df),
                rows = map (\<lambda>r. r\<lparr>Quantity := coerced df ''Quantity'' (Quantity r),
                                   FOB_INR := fillna0 (to_numeric (FOB_INR r)),
                                   Item_Rate_INR := coerced df ''Item Rate(INR)'' (Item_Rate_INR r),
                                   FOB_USD := times_rate (fillna0 (to_numeric (FOB_INR r)))\<rparr>)
                         (rows df)\<rparr>
      else Inl (KeyError ''FOB (INR)''))"
  by (auto simp: normalizer_def Let_def coerce_rows coerced_def comp_def)

lemma is_num_times_rate: "is_num c \<Longrightarrow> is_num (times_rate c)"
  by (cases c) (simp_all add: is_num_def times_rate_def)

lemma not_negative_times_rate: "not_negative c \<Longrightarrow> is_num c \<Longrightarrow> not_negative (times_rate c)"
  by (cases c) (simp_all add: not_negative_def times_rate_def FIXED_RATE_def is_num_def)

lemma numeric_cols_cases:
  "col \<in> set numeric_cols \<longleftrightarrow>
     col = ''Quantity'' \<or> col = ''FOB (INR)'' \<or> col = ''Item Rate(INR)'' \<or> col = ''FOB (USD)''"
  by (auto simp: numeric_cols_def)

lemma normalizer_without_fob:
  "''FOB (USD)'' \<notin> set (columns df) \<Longrightarrow> ''FOB (INR)'' \<notin> set (columns df)
   \<Longrightarrow> normalizer df = Inl (KeyError ''FOB (INR)'')"
  by (simp add: normalizer_cases)

lemma coerce_spec: "fillna0 (to_numeric c) = spec_coerced c"
  by (cases c) (simp_all add: fillna0_def to_numeric_def spec_coerced_def)

lemma times_rate_spec:
  "(case spec_coerced c of Num v \<Rightarrow> times_rate (spec_coerced c) = Num (v * (12 / 1000))
    | _ \<Rightarrow> False)"
  by (cases c) (simp_all add: spec_coerced_def times_rate_def FIXED_RATE_def)

lemma list_all2_map_same: "list_all2 P xs (map f xs) \<longleftrightarrow> (\<forall>x \<in> set xs. P x (f x))"
  by (simp add: list_all2_map2 list_all2_same)

lemma normalizer_kept:
  assumes "''FOB (USD)'' \<in> set (columns df)"
    and "series_sum (map (\<lambda>r. fillna0 (to_numeric (FOB_USD r))) (rows df)) \<noteq> 0"
  shows "\<exists>df'. normalizer df = Inr df' \<and> columns df' = columns df
           \<and> list_all2 (entries_coerced df') (rows df) (rows df')
           \<and> list_all2 usd_kept (rows df) (rows df')"
proof -
  have n: "normalizer df = Inr (fold coerce_column numeric_cols df)"
    using assms by (simp add: normalizer_cases)
  have "list_all2 (entries_coerced (fold coerce_column numeric_cols df)) (rows df)
          (rows (fold coerce_column numeric_cols df))"
    unfolding coerce_rows list_all2_map_same
    by (simp add: entries_coerced_def num_field_def coerced_def coerce_spec)
  moreover have "list_all2 usd_kept (rows df) (rows (fold coerce_column numeric_cols df))"
    unfolding coerce_rows list_all2_map_same
    using assms(1) by (simp add: usd_kept_def coerced_def coerce_spec)
  ultimately show ?thesis using n by simp
qed

lemma normalizer_fallback:
  assumes "''FOB (USD)'' \<notin> set (columns df)
           \<or> series_sum (map (\<lambda>r. fillna0 (to_numeric (FOB_USD r))) (rows df)) = 0"
    and "''FOB (INR)'' \<in> set (columns df)"
  shows "\<exists>df'. normalizer df = Inr df'
           \<and> set (columns df') = insert ''FOB (USD)'' (set (columns df))
           \<and> list_all2 (entries_coerced df') (rows df) (rows df')
           \<and> list_all2 usd_from_inr (rows df) (rows df')"
proof -
  let ?f = "\<lambda>r. r\<lparr>Quantity := coerced df ''Quantity'' (Quantity r),
                   FOB_INR := fillna0 (to_numeric (FOB_INR r)),
                   Item_Rate_INR := coerced df ''Item Rate(INR)'' (Item_Rate_INR r),
                   FOB_USD := times_rate (fillna0 (to_numeric (FOB_INR r)))\<rparr>"
  let ?df' = "\<lparr>columns = List.insert ''FOB (USD)'' (columns df), rows = map ?f (rows df)\<rparr>"
  have n: "normalizer df = Inr ?df'"
    using assms by (auto simp: normalizer_cases)
  have "list_all2 (entries_coerced ?df') (rows df) (map ?f (rows df))"
    unfolding list_all2_map_same
    by (simp add: entries_coerced_def num_field_def coerced_def coerce_spec)
  moreover have "list_all2 usd_from_inr (rows df) (map ?f (rows df))"
    unfolding list_all2_map_same
  proof
    fix r0
    show "usd_from_inr r0 (?f r0)"
      using times_rate_spec [of "FOB_INR r0"]
      by (simp add: usd_from_inr_def coerce_spec split: cell.splits)
  qed
  ultimately show ?thesis using n by simp
qed

lemma normalizer_is_num:
  assumes "normalizer df = Inr df'" and "col \<in> set numeric_cols"
    and "col \<in> set (columns df')" and "r \<in> set (rows df')"
  shows "is_num (num_field col r)
         \<and> (no_negative_entries df \<longrightarrow> not_negative (num_field col r))"
proof (cases "''FOB (USD)'' \<in> set (columns df)
         \<and> series_sum (map (\<lambda>r. fillna0 (to_numeric (FOB_USD r))) (rows df)) \<noteq> 0")
  case True
  with assms(1) have df': "df' = fold coerce_column numeric_cols df"
    by (simp add: normalizer_cases)
  with assms(3) have col: "col \<in> set (columns df)" by simp
  from assms(4) df' obtain r0 where r0: "r0 \<in> set (rows df)"
    and r: "num_field col r = fillna0 (to_numeric (num_field col r0))"
    using assms(2) col
    by (auto simp: coerce_rows coerced_def num_field_def numeric_cols_cases)
  have "no_negative_entries df \<longrightarrow> not_negative (num_field col r0)"
    using r0 col assms(2) by (auto simp: no_negative_entries_def list_all_iff)
  with r show ?thesis by (auto simp: is_num_coerce not_negative_coerce)
next
  case False
  with assms(1) have inr: "''FOB (INR)'' \<in> set (columns df)"
    and df': "df' = \<lparr>columns = List.insert ''FOB (USD)'' (columns df),
        rows = map (\<lambda>r. r\<lparr>Quantity := coerced df ''Quantity'' (Quantity r),
                           FOB_INR := fillna0 (to_numeric (FOB_INR r)),
                           Item_Rate_INR := coerced df ''Item Rate(INR)'' (Item_Rate_INR r),
                           FOB_USD := times_rate (fillna0 (to_numeric (FOB_INR r)))\<rparr>)
                 (rows df)\<rparr>"
    by (auto simp: normalizer_cases split: if_splits)
  from assms(4) df' obtain r0 where r0: "r0 \<in> set (rows df)"
    and r: "r = r0\<lparr>Quantity := coerced df ''Quantity'' (Quantity r0),
                   FOB_INR := fillna0 (to_numeric (FOB_INR r0)),
                   Item_Rate_INR := coerced df ''Item Rate(INR)'' (Item_Rate_INR r0),
                   FOB_USD := times_rate (fillna0 (to_numeric (FOB_INR r0)))\<rparr>"
    by auto
  have nn: "no_negative_entries df \<Longrightarrow> c \<in> set numeric_cols \<Longrightarrow> c \<in> set (columns df)
      \<Longrightarrow> not_negative (num_field c r0)" for c
    using r0 by (auto simp: no_negative_entries_def list_all_iff)
  from assms(2) consider "col = ''Quantity''" | "col = ''FOB (INR)''" | "col = ''Item Rate(INR)''"
    | "col = ''FOB (USD)''" by (auto simp: numeric_cols_cases)
  then show ?thesis
  proof cases
    case 1
    with assms(3) df' have "col \<in> set (columns df)" by auto
    with 1 r nn [of col] assms(2) show ?thesis
      by (auto simp: num_field_def coerced_def is_num_coerce not_negative_coerce)
  next
    case 2
    with r nn [of col] assms(2) inr show ?thesis
      by (auto simp: num_field_def is_num_coerce not_negative_coerce)
  next
    case 3
    with assms(3) df' have "col \<in> set (columns df)" by auto
    with 3 r nn [of col] assms(2) show ?thesis
      by (auto simp: num_field_def coerced_def is_num_coerce not_negative_coerce)
  next
    case 4
    have "no_negative_entries df \<Longrightarrow> not_negative (FOB_INR r0)"
      using nn [of "''FOB (INR)''"] inr by (simp add: numeric_cols_def num_field_def)
    with 4 r show ?thesis
      by (auto simp: num_field_def is_num_coerce not_negative_coerce is_num_times_rate
          not_negative_times_rate)
  qed
qed


lemma zero_entries_sum:
  "list_all (\<lambda>r. spec_coerced (FOB_USD r) = Num 0) rs
   \<Longrightarrow> series_sum (map (\<lambda>r. fillna0 (to_numeric (FOB_USD r))) rs) = 0"
  by (induction rs) (simp_all add: series_sum_def coerce_spec)

section \<open>Normalizer: the claims\<close>

text \<open>
  C3. The claim: for every raw table the normalization step never raises; a numeric column
  that is absent is treated as all-zero and an unparseable entry of a present column becomes
  0, so the run never fails on missing or malformed numeric columns. The program guards the
  coercion loop and the test for a missing \<open>FOB (USD)\<close> column, but reads \<open>FOB (INR)\<close> without
  a guard: on a table that has neither column the fallback raises \<open>KeyError\<close>, and the run
  ends there.
\<close>

theorem normalizer_raises_without_fob_columns:
  "normalizer table_without_fob = Inl (KeyError ''FOB (INR)'')
   \<and> pipeline table_without_fob ''All'' = Inl (KeyError ''FOB (INR)'')"
proof -
  have "normalizer table_without_fob = Inl (KeyError ''FOB (INR)'')" by code_simp
  moreover have "pipeline table_without_fob ''All'' = Inl (KeyError ''FOB (INR)'')" by code_simp
  ultimately show ?thesis by simp
qed

theorem normalizer_raises_without_fob_columns_witness:
  "''FOB (INR)'' \<notin> set (columns table_without_fob)
   \<and> ''FOB (USD)'' \<notin> set (columns table_without_fob)
   \<and> (\<forall>df'. normalizer table_without_fob \<noteq> Inr df')
   \<and> (\<forall>out. pipeline table_without_fob ''All'' \<noteq> Inr out)"
proof -
  have 1: "''FOB (INR)'' \<notin> set (columns table_without_fob)" by code_simp
  have 2: "''FOB (USD)'' \<notin> set (columns table_without_fob)" by code_simp
  from normalizer_raises_without_fob_columns
  have "\<forall>df'. normalizer table_without_fob \<noteq> Inr df'"
    and "\<forall>out. pipeline table_without_fob ''All'' \<noteq> Inr out"
    by simp_all
  with 1 2 show ?thesis by (intro conjI)
qed

text \<open>
  C4, as the specification states it, fails: a negative entry stays negative. Here the
  table has all four numeric columns and \<open>Quantity = -5\<close> in its only row; the normalizer
  returns the table as it is.
\<close>

theorem normalizer_keeps_negative_entry:
  "normalizer table_negative_quantity = Inr table_negative_quantity
   \<and> map Quantity (rows table_negative_quantity) = [Num (- 5)]"
proof -
  have "normalizer table_negative_quantity = Inr table_negative_quantity" by code_simp
  moreover have "map Quantity (rows table_negative_quantity) = [Num (- 5)]" by code_simp
  ultimately show ?thesis by simp
qed

text \<open>
  C4, amended. After a normalization that succeeds the table has its columns and
  \<open>FOB (USD)\<close>, and its rows are the rows of the input in their order. For every row, each of
  \<open>Quantity\<close>, \<open>FOB (INR)\<close> and \<open>Item Rate(INR)\<close> that the table has holds the number of the
  input entry, kept as it is also when it is negative, or 0 when the input entry cannot be
  parsed or is missing. \<open>FOB (USD)\<close> holds, in every row alike, either the input entry coerced
  in the same way, which takes that the input has the column, or the coerced \<open>FOB (INR)\<close>
  entry times 0.012, which is the case whenever the input has no \<open>FOB (USD)\<close> column. So each
  value of the four columns that the table has is numeric (a number, never text or a
  missing value), and it is non-negative provided that no numeric entry of these columns in
  the input table is negative.
\<close>

theorem normalizer_numeric:
  assumes "normalizer df = Inr df'"
  shows "set (columns df') = insert ''FOB (USD)'' (set (columns df))
     \<and> list_all2 (entries_coerced df') (rows df) (rows df')
     \<and> (''FOB (USD)'' \<in> set (columns df) \<and> list_all2 usd_kept (rows df) (rows df')
          \<or> ''FOB (INR)'' \<in> set (columns df) \<and> list_all2 usd_from_inr (rows df) (rows df'))
     \<and> (''FOB (USD)'' \<notin> set (columns df) \<longrightarrow> list_all2 usd_from_inr (rows df) (rows df'))
     \<and> (\<forall>r \<in> set (rows df'). \<forall>col \<in> set numeric_cols. col \<in> set (columns df') \<longrightarrow>
            is_num (num_field col r)
            \<and> (no_negative_entries df \<longrightarrow> not_negative (num_field col r)))"
proof -
  have last: "\<forall>r \<in> set (rows df'). \<forall>col \<in> set numeric_cols. col \<in> set (columns df') \<longrightarrow>
            is_num (num_field col r)
            \<and> (no_negative_entries df \<longrightarrow> not_negative (num_field col r))"
    using normalizer_is_num [OF assms] by blast
  show ?thesis
  proof (cases "''FOB (USD)'' \<in> set (columns df)
         \<and> series_sum (map (\<lambda>r. fillna0 (to_numeric (FOB_USD r))) (rows df)) \<noteq> 0")
    case True
    then have usd: "''FOB (USD)'' \<in> set (columns df)" by simp
    from True normalizer_kept [of df] assms
    have "columns df' = columns df" and "list_all2 (entries_coerced df') (rows df) (rows df')"
      and "list_all2 usd_kept (rows df) (rows df')"
      by auto
    with usd last show ?thesis by (simp add: insert_absorb)
  next
    case False
    then have c: "''FOB (USD)'' \<notin> set (columns df)
           \<or> series_sum (map (\<lambda>r. fillna0 (to_numeric (FOB_USD r))) (rows df)) = 0"
      by blast
    have inr: "''FOB (INR)'' \<in> set (columns df)"
      using assms False by (auto simp: normalizer_cases split: if_splits)
    from normalizer_fallback [OF c inr] assms
    have "set (columns df') = insert ''FOB (USD)'' (set (columns df))"
      and "list_all2 (entries_coerced df') (rows df) (rows df')"
      and "list_all2 usd_from_inr (rows df) (rows df')"
      by auto
    with inr last show ?thesis by simp
  qed
qed

theorem normalizer_numeric_witness:
  "normalizer table_mixed_entries
     = Inr (table_mixed_entries\<lparr>rows :=
         [blank_row\<lparr>Product_Name := Some ''PARACETAMOL 500MG TABLET'', Unit := Some ''NOS'',
                     Quantity := Num (- 5), FOB_INR := Num 0, Item_Rate_INR := Num 0,
                     FOB_USD := Num 12\<rparr>,
          blank_row\<lparr>Product_Name := Some ''IBUPROFEN 400MG TABLET'', Unit := Some ''NOS'',
                     Quantity := Num 0, FOB_INR := Num 2000, Item_Rate_INR := Num 50,
                     FOB_USD := Num 0\<rparr>]\<rparr>)
   \<and> list_all2 (entries_coerced table_mixed_entries) (rows table_mixed_entries)
         [blank_row\<lparr>Product_Name := Some ''PARACETAMOL 500MG TABLET'', Unit := Some ''NOS'',
                     Quantity := Num (- 5), FOB_INR := Num 0, Item_Rate_INR := Num 0,
                     FOB_USD := Num 12\<rparr>,
          blank_row\<lparr>Product_Name := Some ''IBUPROFEN 400MG TABLET'', Unit := Some ''NOS'',
                     Quantity := Num 0, FOB_INR := Num 2000, Item_Rate_INR := Num 50,
                     FOB_USD := Num 0\<rparr>]"
proof -
  let ?rs = "[blank_row\<lparr>Product_Name := Some ''PARACETAMOL 500MG TABLET'', Unit := Some ''NOS'',
                     Quantity := Num (- 5), FOB_INR := Num 0, Item_Rate_INR := Num 0,
                     FOB_USD := Num 12\<rparr>,
          blank_row\<lparr>Product_Name := Some ''IBUPROFEN 400MG TABLET'', Unit := Some ''NOS'',
                     Quantity := Num 0, FOB_INR := Num 2000, Item_Rate_INR := Num 50,
                     FOB_USD := Num 0\<rparr>]"
  have n: "normalizer table_mixed_entries = Inr (table_mixed_entries\<lparr>rows := ?rs\<rparr>)"
    by code_simp
  have c: "entries_coerced (table_mixed_entries\<lparr>rows := ?rs\<rparr>)
      = entries_coerced table_mixed_entries"
    by (intro ext) (simp add: entries_coerced_def)
  from normalizer_numeric [OF n]
  have "list_all2 (entries_coerced (table_mixed_entries\<lparr>rows := ?rs\<rparr>))
          (rows table_mixed_entries) (rows (table_mixed_entries\<lparr>rows := ?rs\<rparr>))"
    by (elim conjE)
  then have "list_all2 (entries_coerced table_mixed_entries) (rows table_mixed_entries) ?rs"
    by (simp add: c)
  with n show ?thesis by (rule conjI)
qed

text \<open>
  C5. The claim: if the \<open>FOB (USD)\<close> column is absent, or the sum of its coerced column is
  exactly 0, then in every row \<open>FOB_USD\<close> is \<open>FOB_INR\<close> times the fixed rate 0.012, a
  \<open>FOB (INR)\<close> column that is absent counting as all-zero. The program does so when the table
  has a \<open>FOB (INR)\<close> column: a row with \<open>FOB (INR) = 1000\<close> and a \<open>FOB (USD)\<close> entry that cannot
  be parsed gets \<open>FOB_USD = 12\<close>. But it reads \<open>FOB (INR)\<close> without a guard: on a table
  without that column it raises \<open>KeyError\<close> and no row gets a value. This is the unguarded
  read of C3, reached here also by a table that has a \<open>FOB (USD)\<close> column of zeros. The
  condition on the sum is taken where the float sum is 0 as the exact one is: every entry
  of the column coerces to 0.
\<close>

theorem fallback_raises_without_fob_inr:
  assumes "''FOB (USD)'' \<notin> set (columns df)
           \<or> list_all (\<lambda>r. spec_coerced (FOB_USD r) = Num 0) (rows df)"
  shows "(''FOB (INR)'' \<in> set (columns df) \<longrightarrow>
            (\<exists>df'. normalizer df = Inr df' \<and> list_all2 usd_from_inr (rows df) (rows df')))
     \<and> (''FOB (INR)'' \<notin> set (columns df) \<longrightarrow> normalizer df = Inl (KeyError ''FOB (INR)''))
     \<and> FIXED_RATE = 12 / 1000
     \<and> normalizer table_usd_zero_without_inr = Inl (KeyError ''FOB (INR)'')
     \<and> pipeline table_usd_zero_without_inr ''All'' = Inl (KeyError ''FOB (INR)'')"
proof -
  from assms have c: "''FOB (USD)'' \<notin> set (columns df)
      \<or> series_sum (map (\<lambda>r. fillna0 (to_numeric (FOB_USD r))) (rows df)) = 0"
    using zero_entries_sum [of "rows df"] by blast
  have 1: "''FOB (INR)'' \<in> set (columns df) \<longrightarrow>
            (\<exists>df'. normalizer df = Inr df' \<and> list_all2 usd_from_inr (rows df) (rows df'))"
    using normalizer_fallback [OF c] by blast
  have 2: "''FOB (INR)'' \<notin> set (columns df) \<longrightarrow> normalizer df = Inl (KeyError ''FOB (INR)'')"
    using c by (auto simp: normalizer_cases)
  have 3: "FIXED_RATE = 12 / 1000" by (simp add: FIXED_RATE_def)
  have 4: "normalizer table_usd_zero_without_inr = Inl (KeyError ''FOB (INR)'')" by code_simp
  have 5: "pipeline table_usd_zero_without_inr ''All'' = Inl (KeyError ''FOB (INR)'')"
    by code_simp
  from 1 2 3 4 5 show ?thesis by (intro conjI)
qed

theorem fallback_raises_without_fob_inr_witness:
  "''FOB (USD)'' \<in> set (columns table_usd_zero_without_inr)
   \<and> list_all (\<lambda>r. spec_coerced (FOB_USD r) = Num 0) (rows table_usd_zero_without_inr)
   \<and> ''FOB (INR)'' \<notin> set (columns table_usd_zero_without_inr)
   \<and> (\<forall>df'. normalizer table_usd_zero_without_inr \<noteq> Inr df')
   \<and> ''FOB (INR)'' \<in> set (columns table_usd_unusable)
   \<and> list_all (\<lambda>r. spec_coerced (FOB_USD r) = Num 0) (rows table_usd_unusable)
   \<and> (\<exists>df'. normalizer table_usd_unusable = Inr df'
         \<and> list_all2 usd_from_inr (rows table_usd_unusable) (rows df'))
   \<and> map FOB_INR (rows table_usd_unusable) = [Num 1000]
   \<and> (\<forall>df'. normalizer table_usd_unusable = Inr df' \<longleftrightarrow>
         df' = \<lparr>columns = [''Product Name'', ''Unit'', ''Quantity'', ''FOB (INR)'', ''FOB (USD)''],
                rows = [blank_row\<lparr>Product_Name := Some ''PARACETAMOL 500MG TABLET'',
                          Unit := Some ''NOS'', Quantity := Num 10, FOB_INR := Num 1000,
                          FOB_USD := Num 12\<rparr>]\<rparr>)"
proof -
  have 0: "''FOB (USD)'' \<in> set (columns table_usd_zero_without_inr)" by code_simp
  have 1: "list_all (\<lambda>r. spec_coerced (FOB_USD r) = Num 0) (rows table_usd_zero_without_inr)"
    by code_simp
  have 2: "''FOB (INR)'' \<notin> set (columns table_usd_zero_without_inr)" by code_simp
  from fallback_raises_without_fob_inr [OF disjI2 [OF 1]] 2
  have "normalizer table_usd_zero_without_inr = Inl (KeyError ''FOB (INR)'')" by (elim conjE)
  then have 3: "\<forall>df'. normalizer table_usd_zero_without_inr \<noteq> Inr df'" by simp
  have 4: "''FOB (INR)'' \<in> set (columns table_usd_unusable)" by code_simp
  have 5: "list_all (\<lambda>r. spec_coerced (FOB_USD r) = Num 0) (rows table_usd_unusable)"
    by code_simp
  from fallback_raises_without_fob_inr [OF disjI2 [OF 5]] 4
  have 6: "\<exists>df'. normalizer table_usd_unusable = Inr df'
         \<and> list_all2 usd_from_inr (rows table_usd_unusable) (rows df')"
    by (elim conjE) (erule mp)
  have 7: "map FOB_INR (rows table_usd_unusable) = [Num 1000]" by code_simp
  have "normalizer table_usd_unusable
      = Inr \<lparr>columns = [''Product Name'', ''Unit'', ''Quantity'', ''FOB (INR)'', ''FOB (USD)''],
                rows = [blank_row\<lparr>Product_Name := Some ''PARACETAMOL 500MG TABLET'',
                          Unit := Some ''NOS'', Quantity := Num 10, FOB_INR := Num 1000,
                          FOB_USD := Num 12\<rparr>]\<rparr>"
    by code_simp
  then have 8: "\<forall>df'. normalizer table_usd_unusable = Inr df' \<longleftrightarrow>
         df' = \<lparr>columns = [''Product Name'', ''Unit'', ''Quantity'', ''FOB (INR)'', ''FOB (USD)''],
                rows = [blank_row\<lparr>Product_Name := Some ''PARACETAMOL 500MG TABLET'',
                          Unit := Some ''NOS'', Quantity := Num 10, FOB_INR := Num 1000,
                          FOB_USD := Num 12\<rparr>]\<rparr>"
    by auto
  from 0 1 2 3 4 5 6 7 8 show ?thesis by (intro conjI)
qed

section \<open>Aggregator: lemmas\<close>

lemma is_space_upper: "is_space (upper_char c) \<longleftrightarrow> is_space c"
  by (auto simp: upper_char_def is_space_def split: option.splits if_splits)

lemma keywords_start:
  "list_all (\<lambda>k. k \<noteq> [] \<and> \<not> is_space (upper_char (hd k))) human_keywords"
  by code_simp

lemma keyword_here_start:
  assumes "keyword_here prev k s" and "k \<in> set human_keywords"
  shows "\<exists>c cs. s = c # cs \<and> \<not> is_space c"
proof -
  from assms(2) keywords_start have "k \<noteq> []" and k0: "\<not> is_space (upper_char (hd k))"
    by (simp_all add: list_all_iff)
  then obtain k0 ks where k: "k = k0 # ks" by (cases k) simp_all
  from assms(1) have len: "length k \<le> length s" and eq: "py_upper (take (length k) s) = py_upper k"
    by (simp_all add: keyword_here_def lit_eq_def)
  from len k obtain c cs where s: "s = c # cs" by (cases s) simp_all
  from eq have "upper_char c = upper_char k0"
    unfolding k s by (simp add: py_upper_def)
  with k0 k have "\<not> is_space (upper_char c)" by simp
  then have "\<not> is_space c" by (simp add: is_space_upper)
  with s show ?thesis by blast
qed

lemma search_human_char: "search_human prev s \<Longrightarrow> \<exists>c \<in> set s. \<not> is_space c"
proof (induction s arbitrary: prev)
  case Nil
  then obtain k where "k \<in> set human_keywords" "keyword_here prev k []"
    by (auto simp: list_ex_iff)
  then show ?case using keyword_here_start [of prev k "[]"] by simp
next
  case (Cons a s)
  from Cons.prems have "list_ex (\<lambda>k. keyword_here prev k (a # s)) human_keywords
      \<or> search_human (Some a) s" by simp
  then show ?case
  proof
    assume "list_ex (\<lambda>k. keyword_here prev k (a # s)) human_keywords"
    then obtain k where "k \<in> set human_keywords" "keyword_here prev k (a # s)"
      by (auto simp: list_ex_iff)
    then have "\<not> is_space a" using keyword_here_start [of prev k "a # s"] by simp
    then show ?thesis by simp
  next
    assume "search_human (Some a) s"
    then have "\<exists>c \<in> set s. \<not> is_space c" by (rule Cons.IH)
    then show ?thesis by simp
  qed
qed

lemma concat_re_split: "concat (re_split sep s) = filter (\<lambda>c. \<not> sep c) s"
  by (induction s) (auto split: list.splits)

lemma py_split_nonempty:
  assumes "c \<in> set s" and "\<not> is_space c"
  shows "py_split s \<noteq> []"
proof
  assume "py_split s = []"
  then have "\<forall>w \<in> set (re_split is_space s). w = []"
    by (auto simp: py_split_def filter_empty_conv)
  then have "concat (re_split is_space s) = []" by simp
  with assms show False by (simp add: concat_re_split filter_empty_conv)
qed

lemma is_human_first_word: "is_human name \<Longrightarrow> \<exists>w. first_word name = Some w"
proof (cases name)
  case None
  assume "is_human name"
  with None show ?thesis by (simp add: is_human_def)
next
  case (Some s)
  assume "is_human name"
  with Some have "search_human None s" by (simp add: is_human_def)
  then obtain c where "c \<in> set s" "\<not> is_space c" using search_human_char by blast
  then have "py_split s \<noteq> []" by (rule py_split_nonempty)
  with Some show ?thesis by (cases "py_split s") (auto simp: first_word_def)
qed

lemma fold_max_ge: "a \<le> fold (\<lambda>v m. max (f v) m) xs (a::nat)"
proof (induction xs arbitrary: a)
  case Nil
  show ?case by simp
next
  case (Cons x xs)
  have "a \<le> max (f x) a" by simp
  also have "\<dots> \<le> fold (\<lambda>v m. max (f v) m) xs (max (f x) a)" by (rule Cons.IH)
  finally show ?case by simp
qed

lemma fold_max_upper: "v \<in> set xs \<Longrightarrow> f v \<le> fold (\<lambda>v m. max (f v) m) xs (a::nat)"
proof (induction xs arbitrary: a)
  case Nil
  then show ?case by simp
next
  case (Cons x xs)
  show ?case
  proof (cases "v = x")
    case True
    have "f v \<le> max (f x) a" using True by simp
    also have "\<dots> \<le> fold (\<lambda>v m. max (f v) m) xs (max (f x) a)" by (rule fold_max_ge)
    finally show ?thesis by simp
  next
    case False
    with Cons.prems have "v \<in> set xs" by simp
    then show ?thesis using Cons.IH by simp
  qed
qed

lemma fold_max_attained:
  "fold (\<lambda>v m. max (f v) m) xs (a::nat) = a \<or> (\<exists>v \<in> set xs. fold (\<lambda>v m. max (f v) m) xs a = f v)"
proof (induction xs arbitrary: a)
  case Nil
  show ?case by simp
next
  case (Cons x xs)
  define b where "b = max (f x) a"
  define m where "m = fold (\<lambda>v m. max (f v) m) xs b"
  have step: "fold (\<lambda>v m. max (f v) m) (x # xs) a = m" by (simp add: m_def b_def)
  have b: "b = a \<or> b = f x" unfolding b_def by (cases "f x \<le> a") (simp_all add: max_def)
  from Cons.IH [of b] have "m = b \<or> (\<exists>v \<in> set xs. m = f v)" by (simp only: m_def)
  with b have "m = a \<or> (\<exists>v \<in> set (x # xs). m = f v)" by (elim disjE) simp_all
  then show ?case by (simp only: step)
qed

lemma max_count_upper: "count_list vs v \<le> max_count vs"
proof (cases "v \<in> set vs")
  case True
  then show ?thesis unfolding max_count_def by (rule fold_max_upper)
next
  case False
  then show ?thesis by (simp add: count_list_0_iff)
qed

lemma max_count_attained: "vs \<noteq> [] \<Longrightarrow> \<exists>v \<in> set vs. count_list vs v = max_count vs"
proof -
  assume ne: "vs \<noteq> []"
  from fold_max_attained [of "count_list vs" vs 0]
  show ?thesis
  proof
    assume 0: "fold (\<lambda>v m. max (count_list vs v) m) vs 0 = 0"
    from ne obtain v where v: "v \<in> set vs" by (cases vs) auto
    then have "count_list vs v \<le> max_count vs" by (simp add: max_count_upper)
    with 0 have "count_list vs v = 0" by (simp add: max_count_def)
    with v show ?thesis by (simp add: count_list_0_iff)
  next
    assume "\<exists>v \<in> set vs. fold (\<lambda>v m. max (count_list vs v) m) vs 0 = count_list vs v"
    then show ?thesis by (auto simp: max_count_def)
  qed
qed

lemma modes_head:
  assumes "modes xs = m # ms"
  shows "m \<in> set (List.map_filter id xs)
    \<and> count_list (List.map_filter id xs) m = max_count (List.map_filter id xs)
    \<and> (\<forall>w. count_list (List.map_filter id xs) w = max_count (List.map_filter id xs)
          \<and> w \<in> set (List.map_filter id xs) \<longrightarrow> m \<le> w)"
proof -
  define vs where "vs = List.map_filter id xs"
  define cands where "cands = filter (\<lambda>v. count_list vs v = max_count vs) (remdups vs)"
  from assms have srt: "sort cands = m # ms"
    by (simp add: modes_def Let_def vs_def cands_def)
  have cands: "w \<in> set cands \<longleftrightarrow> w \<in> set vs \<and> count_list vs w = max_count vs" for w
    by (simp add: cands_def)
  have set_eq: "set cands = set (m # ms)"
    using set_sort [of "\<lambda>x. x" cands] by (simp only: srt)
  have "sorted (m # ms)" using sorted_sort [of cands] by (simp only: srt)
  then have le: "w \<in> set (m # ms) \<Longrightarrow> m \<le> w" for w
    by (cases "w = m") simp_all
  have "m \<in> set cands" by (simp add: set_eq)
  then have 1: "m \<in> set vs" and 2: "count_list vs m = max_count vs"
    by (simp_all add: cands)
  have 3: "m \<le> w" if "count_list vs w = max_count vs" "w \<in> set vs" for w
  proof -
    from that have "w \<in> set cands" by (simp add: cands)
    then have "w \<in> set (m # ms)" by (simp only: set_eq)
    then show ?thesis by (rule le)
  qed
  from 1 2 3 show ?thesis unfolding vs_def by blast
qed

lemma modes_nonempty:
  assumes "List.map_filter id xs \<noteq> []"
  shows "modes xs \<noteq> []"
proof -
  let ?vs = "List.map_filter id xs"
  from max_count_attained [OF assms] obtain v where "v \<in> set ?vs" "count_list ?vs v = max_count ?vs"
    by blast
  then have "v \<in> set (modes xs)" by (simp add: modes_def Let_def)
  then show ?thesis by auto
qed

subsection \<open>The steps before the report\<close>

lemma normalizer_columns:
  "normalizer df = Inr df1 \<Longrightarrow> set (columns df1) = insert ''FOB (USD)'' (set (columns df))"
  by (auto simp: normalizer_cases split: if_splits)

lemma valid_frame_Inr:
  assumes "valid_frame df = Inr vdf"
  shows "''Product Name'' \<in> set (columns df)
    \<and> set (columns vdf) = insert ''API'' (insert ''FOB (USD)'' (set (columns df)))
    \<and> (\<forall>r \<in> set (rows vdf). API r \<noteq> ''INVALID''
          \<and> API r = extract_api (py_str (Product_Name r)))"
proof -
  from assms obtain df1 df2 where n: "normalizer df = Inr df1" and a: "add_api df1 = Inr df2"
    and v: "vdf = valid_df df2"
    by (auto simp: valid_frame_def split: sum.splits)
  from a have pn: "''Product Name'' \<in> set (columns df1)"
    and df2: "df2 = df1\<lparr>columns := List.insert ''API'' (columns df1),
        rows := map (\<lambda>r. r\<lparr>API := extract_api (py_str (Product_Name r))\<rparr>) (rows df1)\<rparr>"
    by (auto simp: add_api_def split: if_splits)
  from pn normalizer_columns [OF n] have "''Product Name'' \<in> set (columns df)" by simp
  moreover have "set (columns vdf) = insert ''API'' (insert ''FOB (USD)'' (set (columns df)))"
    using v df2 normalizer_columns [OF n] by (simp add: valid_df_def)
  moreover have "\<forall>r \<in> set (rows vdf). API r \<noteq> ''INVALID''
          \<and> API r = extract_api (py_str (Product_Name r))"
    using v df2 by (auto simp: valid_df_def)
  ultimately show ?thesis by blast
qed

lemma valid_frame_Inl:
  "valid_frame df = Inl e \<Longrightarrow>
     (normalizer df = Inl e \<and> e = KeyError ''FOB (INR)'')
     \<or> (''Product Name'' \<notin> set (columns df) \<and> e = KeyError ''Product Name'')"
proof -
  assume v: "valid_frame df = Inl e"
  show ?thesis
  proof (cases "normalizer df")
    case (Inl e')
    with v have "e' = e" by (simp add: valid_frame_def)
    moreover from Inl have "e' = KeyError ''FOB (INR)''"
      by (auto simp: normalizer_cases split: if_splits)
    ultimately show ?thesis using Inl by simp
  next
    case (Inr df1)
    with v have "add_api df1 = Inl e" by (simp add: valid_frame_def split: sum.splits)
    then have "''Product Name'' \<notin> set (columns df1)" "e = KeyError ''Product Name''"
      by (auto simp: add_api_def split: if_splits)
    with normalizer_columns [OF Inr] show ?thesis by simp
  qed
qed

lemma valid_frame_without_name:
  assumes "''Product Name'' \<notin> set (columns df)"
  shows "valid_frame df = Inl (KeyError ''Product Name'')
         \<or> valid_frame df = Inl (KeyError ''FOB (INR)'')"
proof (cases "valid_frame df")
  case (Inl e)
  with valid_frame_Inl [OF Inl] show ?thesis by auto
next
  case (Inr vdf)
  with valid_frame_Inr [OF Inr] assms show ?thesis by simp
qed

lemma filtered_frame_Inr:
  assumes "filtered_frame df flt = Inr fdf"
  shows "\<exists>vdf. valid_frame df = Inr vdf \<and> columns fdf = columns vdf
    \<and> set (rows fdf) \<subseteq> set (rows vdf)
    \<and> (\<forall>r \<in> set (rows fdf). is_human (Product_Name r))"
  using assms
  by (auto simp: filtered_frame_def filtered_df_def human_df_def split: sum.splits if_splits)

lemma filtered_frame_Inl:
  assumes "filtered_frame df flt = Inl e"
  shows "valid_frame df = Inl e \<or> e = AttributeError"
  using assms
  by (auto simp: filtered_frame_def human_df_def split: sum.splits if_splits)

lemma filtered_frame_rows:
  assumes "filtered_frame df flt = Inr fdf" and "r \<in> set (rows fdf)"
  shows "is_human (Product_Name r) \<and> API r \<noteq> ''INVALID''
    \<and> API r = extract_api (py_str (Product_Name r))"
proof -
  from filtered_frame_Inr [OF assms(1)] obtain vdf where v: "valid_frame df = Inr vdf"
    and sub: "set (rows fdf) \<subseteq> set (rows vdf)"
    and h: "\<forall>r \<in> set (rows fdf). is_human (Product_Name r)" by blast
  from sub assms(2) have "r \<in> set (rows vdf)" by blast
  with valid_frame_Inr [OF v] h assms(2) show ?thesis by blast
qed

lemma filtered_frame_columns:
  assumes "filtered_frame df flt = Inr fdf"
  shows "set (columns fdf) = insert ''API'' (insert ''FOB (USD)'' (set (columns df)))"
proof -
  from filtered_frame_Inr [OF assms] obtain vdf where v: "valid_frame df = Inr vdf"
    and c: "columns fdf = columns vdf" by blast
  with valid_frame_Inr [OF v] show ?thesis by simp
qed

subsection \<open>The loop that collects the records\<close>

lemma collect_Inr_iff: "collect f xs = Inr ys \<longleftrightarrow> list_all2 (\<lambda>x y. f x = Inr y) xs ys"
proof (induction xs arbitrary: ys)
  case Nil
  show ?case by auto
next
  case (Cons x xs)
  have "collect f (x # xs) = Inr ys
      \<longleftrightarrow> (\<exists>y ys'. ys = y # ys' \<and> f x = Inr y \<and> collect f xs = Inr ys')"
    by (auto split: sum.splits)
  also have "\<dots> \<longleftrightarrow> (\<exists>y ys'. ys = y # ys' \<and> f x = Inr y
      \<and> list_all2 (\<lambda>x y. f x = Inr y) xs ys')"
    by (simp only: Cons.IH)
  also have "\<dots> \<longleftrightarrow> list_all2 (\<lambda>x y. f x = Inr y) (x # xs) ys"
    by (auto simp: list_all2_Cons1)
  finally show ?case .
qed

lemma collect_first_error:
  "f x = Inl e \<Longrightarrow> collect f (x # xs) = Inl e"
  by simp

lemma collect_Inl: "collect f xs = Inl e \<Longrightarrow> \<exists>x \<in> set xs. f x = Inl e"
  by (induction xs) (auto split: sum.splits)

lemma collect_total:
  "(\<And>x. x \<in> set xs \<Longrightarrow> \<exists>y. f x = Inr y) \<Longrightarrow> \<exists>ys. collect f xs = Inr ys"
proof (induction xs)
  case Nil
  show ?case by simp
next
  case (Cons x xs)
  from Cons.prems [of x] obtain y where "f x = Inr y" by auto
  moreover from Cons.IH Cons.prems obtain ys where "collect f xs = Inr ys" by auto
  ultimately show ?case by simp
qed


subsection \<open>One record\<close>

lemma max_one_nonzero: "max (q::rat) 1 \<noteq> 0"
  by (simp add: max_def)

lemma of_nat_max_one_nonzero: "(of_nat (max (n::nat) 1) :: rat) \<noteq> 0"
  by (simp add: max_def)

lemma analysis_record_for_eq:
  "analysis_record_for u fdf api =
     (if ''Unit'' \<notin> set (columns fdf) then Inl (KeyError ''Unit'')
      else case category (api_rows api (rows fdf)) of
             Inl e \<Rightarrow> Inl e
           | Inr cat \<Rightarrow>
               if \<not> u then Inl AttributeError
               else
               Inr \<lparr>rec_API = api,
                    Category = cat,
                    Export_Count = length (api_rows api (rows fdf)),
                    Total_Shipments = group_quantity fdf api,
                    Common_Strengths =
                      (if list_ex (\<lambda>s. s \<noteq> []) (strengths (api_rows api (rows fdf)))
                       then py_join '', '' (strengths (api_rows api (rows fdf)))
                       else ''Standard''),
                    Avg_Qty_Export =
                      group_quantity fdf api / of_nat (max (length (api_rows api (rows fdf))) 1),
                    Packaging_Types =
                      (if packaging (api_rows api (rows fdf)) \<noteq> []
                       then py_join '', '' (packaging (api_rows api (rows fdf)))
                       else ''Various''),
                    Total_Nos =
                      series_sum (map Quantity
                        (filter (unit_in [''NOS'']) (api_rows api (rows fdf)))),
                    Total_Kg =
                      series_sum (map Quantity
                        (filter (unit_in [''KG'', ''KGS'']) (api_rows api (rows fdf)))),
                    Avg_FOB_Pack = group_fob fdf api / max (group_quantity fdf api) 1,
                    Avg_Price_Unit = group_fob fdf api / max (group_quantity fdf api) 1\<rparr>)"
  unfolding analysis_record_for_def Let_def py_div_def group_quantity_def group_fob_def
  by (simp add: max_one_nonzero of_nat_max_one_nonzero del: of_nat_max split: sum.splits)

lemma category_error: "category rs = Inl e \<Longrightarrow> e = KeyError ''0''"
  by (auto simp: category_def split: list.splits)

lemma analysis_record_for_no_zero_division: "analysis_record_for u fdf api \<noteq> Inl ZeroDivision"
  using category_error [of "api_rows api (rows fdf)"]
  by (auto simp: analysis_record_for_eq split: sum.splits)

lemma analysis_record_for_fields:
  assumes "analysis_record_for u fdf api = Inr rec"
  shows "rec_API rec = api"
    and "category (api_rows api (rows fdf)) = Inr (Category rec)"
    and "Avg_FOB_Pack rec = group_fob fdf api / max (group_quantity fdf api) 1"
    and "Avg_Price_Unit rec = group_fob fdf api / max (group_quantity fdf api) 1"
    and "''Unit'' \<in> set (columns fdf)"
  using assms by (auto simp: analysis_record_for_eq split: sum.splits if_splits)

lemma map_filter_id_map: "List.map_filter id (map f xs) = List.map_filter f xs"
  by (induction xs) (simp_all split: option.splits)

lemma map_filter_member: "x \<in> set xs \<Longrightarrow> f x = Some y \<Longrightarrow> y \<in> set (List.map_filter f xs)"
  by (induction xs) (auto split: option.splits)

lemma category_total:
  assumes "rs \<noteq> []" and "\<And>r. r \<in> set rs \<Longrightarrow> is_human (Product_Name r)"
  shows "\<exists>m. category rs = Inr m"
proof -
  from assms(1) obtain r where r: "r \<in> set rs" by (cases rs) auto
  with assms(2) is_human_first_word obtain w where "first_word (Product_Name r) = Some w"
    by blast
  with r have "w \<in> set (List.map_filter (\<lambda>r. first_word (Product_Name r)) rs)"
    by (rule map_filter_member)
  then have "List.map_filter id (map (\<lambda>r. first_word (Product_Name r)) rs) \<noteq> []"
    by (auto simp: map_filter_id_map)
  then have "modes (map (\<lambda>r. first_word (Product_Name r)) rs) \<noteq> []"
    by (rule modes_nonempty)
  then show ?thesis by (auto simp: category_def split: list.splits)
qed

lemma category_mode:
  assumes "category (api_rows api (rows fdf)) = Inr m"
  shows "m \<in> set (first_words fdf api)"
    and "count_list (first_words fdf api) w \<le> count_list (first_words fdf api) m"
    and "count_list (first_words fdf api) w = count_list (first_words fdf api) m \<Longrightarrow> m \<le> w"
proof -
  let ?xs = "map (\<lambda>r. first_word (Product_Name r)) (api_rows api (rows fdf))"
  have vs: "List.map_filter id ?xs = first_words fdf api"
    by (simp add: map_filter_id_map first_words_def)
  from assms obtain ms where "modes ?xs = m # ms"
    by (auto simp: category_def split: list.splits)
  from modes_head [OF this] have m: "m \<in> set (first_words fdf api)"
    and c: "count_list (first_words fdf api) m = max_count (first_words fdf api)"
    and least: "\<And>w. count_list (first_words fdf api) w = max_count (first_words fdf api) \<Longrightarrow>
        w \<in> set (first_words fdf api) \<Longrightarrow> m \<le> w"
    unfolding vs by blast+
  show "m \<in> set (first_words fdf api)" by (rule m)
  show "count_list (first_words fdf api) w \<le> count_list (first_words fdf api) m"
    unfolding c by (rule max_count_upper)
  show "m \<le> w" if eq: "count_list (first_words fdf api) w = count_list (first_words fdf api) m"
  proof -
    from m have "count_list (first_words fdf api) m \<noteq> 0" by (simp add: count_list_0_iff)
    with eq have "count_list (first_words fdf api) w \<noteq> 0" by simp
    then have "w \<in> set (first_words fdf api)" by (simp add: count_list_0_iff)
    with eq c least show ?thesis by simp
  qed
qed

subsection \<open>The selected APIs\<close>

lemma set_group_keys: "set (group_keys rs) = API ` set rs"
  by (simp add: group_keys_def)

lemma length_group_keys: "length (group_keys rs) = card (API ` set rs)"
  by (simp add: group_keys_def length_remdups_card_conv)

lemma length_nlargest: "length (nlargest n f xs) = min n (length xs)"
  by (simp add: nlargest_def min.commute)

lemma set_nlargest: "set (nlargest n f xs) \<subseteq> set xs"
  unfolding nlargest_def using set_take_subset [of n "sort_key (\<lambda>x. - f x) xs"] by simp

lemma top_apis_eq:
  "top_apis fdf =
     (if ''Quantity'' \<notin> set (columns fdf) then Inl (KeyError ''Quantity'')
      else if ''FOB (USD)'' \<notin> set (columns fdf) then Inl (KeyError ''FOB (USD)'')
      else Inr (nlargest 5 (group_quantity fdf) (group_keys (rows fdf))))"
  by (simp add: top_apis_def group_quantity_def [abs_def])

lemma top_apis_Inr:
  assumes "top_apis fdf = Inr apis"
  shows "length apis = min 5 (distinct_api_count fdf)"
    and "set apis \<subseteq> API ` set (rows fdf)"
    and "rows fdf \<noteq> [] \<Longrightarrow> apis \<noteq> []"
proof -
  from assms have apis: "apis = nlargest 5 (group_quantity fdf) (group_keys (rows fdf))"
    by (auto simp: top_apis_eq split: if_splits)
  show len: "length apis = min 5 (distinct_api_count fdf)"
    by (simp add: apis length_nlargest length_group_keys distinct_api_count_def)
  show "set apis \<subseteq> API ` set (rows fdf)"
    using set_nlargest [of 5 "group_quantity fdf" "group_keys (rows fdf)"]
    by (simp add: apis set_group_keys)
  show "apis \<noteq> []" if "rows fdf \<noteq> []"
  proof -
    define c where "c = distinct_api_count fdf"
    from that have "API ` set (rows fdf) \<noteq> {}" by simp
    then have "0 < c" unfolding c_def distinct_api_count_def by (simp add: card_gt_0_iff)
    moreover from len have "length apis = min 5 c" by (simp only: c_def)
    ultimately have "0 < length apis" by arith
    then show ?thesis by simp
  qed
qed

subsection \<open>The report\<close>

lemma pipeline_eq: "filtered_frame df flt = Inr fdf \<Longrightarrow> pipeline df flt = report (is_text_column Unit df) fdf"
  by (simp add: pipeline_def)

lemma report_Report_iff:
  "report u fdf = Inr (Report recs) \<longleftrightarrow>
     rows fdf \<noteq> [] \<and> (\<exists>apis. top_apis fdf = Inr apis
        \<and> list_all2 (\<lambda>api rec. analysis_record_for u fdf api = Inr rec) apis recs)"
proof -
  have "report u fdf = Inr (Report recs) \<longleftrightarrow> rows fdf \<noteq> [] \<and> analysis_data u fdf = Inr recs"
    by (auto simp: report_def split: sum.splits)
  also have "analysis_data u fdf = Inr recs \<longleftrightarrow>
      (\<exists>apis. top_apis fdf = Inr apis \<and> collect (analysis_record_for u fdf) apis = Inr recs)"
    by (cases "top_apis fdf") (simp_all add: analysis_data_def)
  finally show ?thesis by (simp only: collect_Inr_iff)
qed

lemma list_all2_right_member:
  "list_all2 P xs ys \<Longrightarrow> y \<in> set ys \<Longrightarrow> \<exists>x \<in> set xs. P x y"
  by (induction rule: list_all2_induct) auto

lemma report_record:
  assumes "report u fdf = Inr (Report recs)" and "rec \<in> set recs"
  shows "analysis_record_for u fdf (rec_API rec) = Inr rec"
proof -
  from assms(1) obtain apis where
    "list_all2 (\<lambda>api rec. analysis_record_for u fdf api = Inr rec) apis recs"
    by (auto simp: report_Report_iff)
  from list_all2_right_member [OF this assms(2)] obtain api where
    api: "analysis_record_for u fdf api = Inr rec" by blast
  then have "rec_API rec = api" by (rule analysis_record_for_fields)
  with api show ?thesis by simp
qed

lemma report_length:
  assumes "report u fdf = Inr (Report recs)"
  shows "length recs = min 5 (distinct_api_count fdf)"
proof -
  from assms obtain apis where t: "top_apis fdf = Inr apis"
    and l: "list_all2 (\<lambda>api rec. analysis_record_for u fdf api = Inr rec) apis recs"
    by (auto simp: report_Report_iff)
  from l have "length recs = length apis" by (simp add: list_all2_lengthD)
  with top_apis_Inr(1) [OF t] show ?thesis by simp
qed

lemma report_no_zero_division: "report u fdf \<noteq> Inl ZeroDivision"
proof
  assume "report u fdf = Inl ZeroDivision"
  then have a: "analysis_data u fdf = Inl ZeroDivision"
    by (auto simp: report_def split: if_splits sum.splits)
  show False
  proof (cases "top_apis fdf")
    case (Inl e)
    with a have "top_apis fdf = Inl ZeroDivision" by (simp add: analysis_data_def)
    then show False by (auto simp: top_apis_eq split: if_splits)
  next
    case (Inr apis)
    with a have "collect (analysis_record_for u fdf) apis = Inl ZeroDivision"
      by (simp add: analysis_data_def)
    from collect_Inl [OF this] show False
      by (auto simp: analysis_record_for_no_zero_division)
  qed
qed

lemma pipeline_no_zero_division: "pipeline df flt \<noteq> Inl ZeroDivision"
proof (cases "filtered_frame df flt")
  case (Inl e)
  from filtered_frame_Inl [OF Inl] have "e \<noteq> ZeroDivision"
  proof
    assume "valid_frame df = Inl e"
    from valid_frame_Inl [OF this] show ?thesis by auto
  next
    assume "e = AttributeError"
    then show ?thesis by simp
  qed
  with Inl show ?thesis by (simp add: pipeline_def)
next
  case (Inr fdf)
  then show ?thesis by (simp add: pipeline_def report_no_zero_division)
qed

lemma report_total:
  assumes "filtered_frame df flt = Inr fdf" and "rows fdf \<noteq> []"
    and "''Quantity'' \<in> set (columns df)" and "''Unit'' \<in> set (columns df)"
  shows "\<exists>recs. report True fdf = Inr (Report recs)"
proof -
  have cols: "set (columns fdf) = insert ''API'' (insert ''FOB (USD)'' (set (columns df)))"
    using assms(1) by (rule filtered_frame_columns)
  with assms(3) have "top_apis fdf
      = Inr (nlargest 5 (group_quantity fdf) (group_keys (rows fdf)))"
    by (simp add: top_apis_eq)
  then obtain apis where t: "top_apis fdf = Inr apis" by blast
  have "\<exists>rec. analysis_record_for True fdf api = Inr rec" if "api \<in> set apis" for api
  proof -
    from that top_apis_Inr(2) [OF t] obtain r where r: "r \<in> set (rows fdf)" "API r = api"
      by auto
    then have "api_rows api (rows fdf) \<noteq> []"
      by (auto simp: api_rows_def filter_empty_conv)
    moreover have "is_human (Product_Name r')" if "r' \<in> set (api_rows api (rows fdf))" for r'
      using that filtered_frame_rows [OF assms(1), of r'] by (simp add: api_rows_def)
    ultimately obtain m where "category (api_rows api (rows fdf)) = Inr m"
      using category_total by blast
    moreover from cols assms(4) have "''Unit'' \<in> set (columns fdf)" by simp
    ultimately show ?thesis by (simp add: analysis_record_for_eq)
  qed
  then obtain recs where "collect (analysis_record_for True fdf) apis = Inr recs"
    using collect_total [of apis "analysis_record_for True fdf"] by blast
  with t assms(2) show ?thesis by (simp add: report_def analysis_data_def)
qed

text \<open>Once a record has been started for a column \<open>Unit\<close> that is not text, the run fails.\<close>

lemma report_without_text_units:
  assumes "report False fdf = Inr (Report recs)"
  shows False
proof -
  from assms have ne: "rows fdf \<noteq> []" and "\<exists>apis. top_apis fdf = Inr apis
      \<and> list_all2 (\<lambda>api rec. analysis_record_for False fdf api = Inr rec) apis recs"
    by (simp_all add: report_Report_iff)
  then obtain apis where t: "top_apis fdf = Inr apis"
    and l: "list_all2 (\<lambda>api rec. analysis_record_for False fdf api = Inr rec) apis recs"
    by blast
  from top_apis_Inr(3) [OF t ne] obtain a as where apis: "apis = a # as" by (cases apis) auto
  with l obtain rec where "analysis_record_for False fdf a = Inr rec"
    by (auto simp: list_all2_Cons1)
  then show False by (auto simp: analysis_record_for_eq split: if_splits sum.splits)
qed

subsection \<open>Rows whose token is the sentinel word\<close>

lemma valid_frame_no_sentinel_token:
  assumes "valid_frame df = Inr vdf" and "r \<in> set (rows vdf)"
  shows "valid_tokens (py_str (Product_Name r)) \<noteq> ''INVALID'' # ts"
proof
  assume "valid_tokens (py_str (Product_Name r)) = ''INVALID'' # ts"
  then have e: "extract_api (py_str (Product_Name r)) = ''INVALID''"
    unfolding extract_api_def by (simp only: list.case)
  from valid_frame_Inr [OF assms(1)]
  have "\<forall>r \<in> set (rows vdf). API r \<noteq> ''INVALID''
          \<and> API r = extract_api (py_str (Product_Name r))" by (elim conjE)
  then have "API r \<noteq> ''INVALID'' \<and> API r = extract_api (py_str (Product_Name r))"
    using assms(2) by (rule bspec)
  with e show False by (elim conjE) (simp only: simp_thms)
qed

lemma filtered_frame_no_sentinel_token:
  assumes "filtered_frame df api_filter = Inr fdf" and "r \<in> set (rows fdf)"
  shows "valid_tokens (py_str (Product_Name r)) \<noteq> ''INVALID'' # ts"
proof -
  from filtered_frame_Inr [OF assms(1)] obtain vdf where v: "valid_frame df = Inr vdf"
    and sub: "set (rows fdf) \<subseteq> set (rows vdf)" by (elim exE conjE)
  from sub assms(2) have "r \<in> set (rows vdf)" by (rule subsetD)
  with v show ?thesis by (rule valid_frame_no_sentinel_token)
qed

lemma report_api_not_sentinel:
  assumes p: "pipeline df api_filter = Inr (Report recs)" and m: "rec \<in> set recs"
  shows "rec_API rec \<noteq> ''INVALID''"
proof -
  from p obtain fdf where f: "filtered_frame df api_filter = Inr fdf"
    by (cases "filtered_frame df api_filter") (simp_all add: pipeline_def)
  with p have rep: "report (is_text_column Unit df) fdf = Inr (Report recs)" by (simp add: pipeline_eq)
  then obtain apis where t: "top_apis fdf = Inr apis"
    and l: "list_all2 (\<lambda>api rec. analysis_record_for (is_text_column Unit df) fdf api = Inr rec) apis recs"
    unfolding report_Report_iff by (elim exE conjE)
  from list_all2_right_member [OF l m] obtain api where api: "api \<in> set apis"
    and a: "analysis_record_for (is_text_column Unit df) fdf api = Inr rec" by (elim bexE)
  from top_apis_Inr(2) [OF t] api have "api \<in> API ` set (rows fdf)" by (rule subsetD)
  then obtain r where r: "r \<in> set (rows fdf)" and ar: "api = API r" by (elim imageE)
  from filtered_frame_rows [OF f r] have "API r \<noteq> ''INVALID''" by (elim conjE)
  moreover from a have "rec_API rec = api" by (rule analysis_record_for_fields)
  ultimately show ?thesis unfolding ar by (elim ssubst)
qed

section \<open>Aggregator and reporter: the claims\<close>

text \<open>
  C2. For every non-empty filtered set of human-use rows, the number of records of the
  report is \<open>min 5\<close> of the number of distinct API tokens in the set, so it is never more
  than 5 and never more than that number. Any report the run produces has this length, and
  the run produces one exactly when the table has the \<open>Quantity\<close> and \<open>Unit\<close> columns that the
  aggregation reads and \<open>Unit\<close> is a text column.
\<close>

theorem report_cardinality:
  assumes "filtered_frame df api_filter = Inr fdf" and "rows fdf \<noteq> []"
  shows "(\<forall>recs. pipeline df api_filter = Inr (Report recs) \<longrightarrow>
            length recs = min 5 (distinct_api_count fdf)
            \<and> length recs \<le> 5 \<and> length recs \<le> distinct_api_count fdf)
         \<and> ((\<exists>recs. pipeline df api_filter = Inr (Report recs)) \<longleftrightarrow>
              ''Quantity'' \<in> set (columns df) \<and> ''Unit'' \<in> set (columns df)
              \<and> is_text_column Unit df)"
proof -
  have p: "pipeline df api_filter = report (is_text_column Unit df) fdf"
    using assms(1) by (rule pipeline_eq)
  have cols: "set (columns fdf) = insert ''API'' (insert ''FOB (USD)'' (set (columns df)))"
    using assms(1) by (rule filtered_frame_columns)
  have 1: "length recs = min 5 (distinct_api_count fdf)
        \<and> length recs \<le> 5 \<and> length recs \<le> distinct_api_count fdf"
    if "pipeline df api_filter = Inr (Report recs)" for recs
  proof -
    from that p have "report (is_text_column Unit df) fdf = Inr (Report recs)" by simp
    then have "length recs = min 5 (distinct_api_count fdf)" by (rule report_length)
    then show ?thesis by simp
  qed
  have 2: "\<exists>recs. pipeline df api_filter = Inr (Report recs)"
    if "''Quantity'' \<in> set (columns df) \<and> ''Unit'' \<in> set (columns df)
        \<and> is_text_column Unit df"
    using report_total [OF assms] that p by simp
  have 3: "''Quantity'' \<in> set (columns df) \<and> ''Unit'' \<in> set (columns df)
        \<and> is_text_column Unit df"
    if "pipeline df api_filter = Inr (Report recs)" for recs
  proof -
    from that p have r: "report (is_text_column Unit df) fdf = Inr (Report recs)" by simp
    then obtain apis where t: "top_apis fdf = Inr apis"
      and l: "list_all2 (\<lambda>api rec. analysis_record_for (is_text_column Unit df) fdf api = Inr rec)
                apis recs"
      by (auto simp: report_Report_iff)
    from t cols have q: "''Quantity'' \<in> set (columns df)"
      by (auto simp: top_apis_eq split: if_splits)
    from top_apis_Inr(3) [OF t assms(2)] obtain a as where "apis = a # as"
      by (cases apis) auto
    with l obtain rec where "analysis_record_for (is_text_column Unit df) fdf a = Inr rec"
      by (auto simp: list_all2_Cons1)
    then have "''Unit'' \<in> set (columns fdf)" by (rule analysis_record_for_fields)
    with cols have u: "''Unit'' \<in> set (columns df)" by simp
    have "is_text_column Unit df"
    proof (rule ccontr)
      assume "\<not> is_text_column Unit df"
      with r have "report False fdf = Inr (Report recs)" by simp
      then show False by (rule report_without_text_units)
    qed
    with q u show ?thesis by simp
  qed
  from 1 2 3 show ?thesis by blast
qed

theorem report_cardinality_witness:
  "filtered_frame sample_table ''All'' = Inr sample_filtered
   \<and> rows sample_filtered \<noteq> []
   \<and> distinct_api_count sample_filtered = 2
   \<and> (\<exists>recs. pipeline sample_table ''All'' = Inr (Report recs) \<and> length recs = 2)"
proof -
  have f: "filtered_frame sample_table ''All'' = Inr sample_filtered" by code_simp
  have ne: "rows sample_filtered \<noteq> []" by code_simp
  have d: "distinct_api_count sample_filtered = 2" by code_simp
  have c: "''Quantity'' \<in> set (columns sample_table) \<and> ''Unit'' \<in> set (columns sample_table)
      \<and> is_text_column Unit sample_table"
    by code_simp
  from report_cardinality [OF f ne] c obtain recs where
    r: "pipeline sample_table ''All'' = Inr (Report recs)" by blast
  with report_cardinality [OF f ne] have "length recs = min 5 (distinct_api_count sample_filtered)"
    by blast
  with d have "length recs = 2" by simp
  with f ne d r show ?thesis by blast
qed

text \<open>
  C6, as the specification states it, fails: with a total quantity of 0 the price fields
  are not 0 but the total of \<open>FOB_USD\<close>. Here one row has \<open>Quantity = 0\<close> and
  \<open>FOB (USD) = 100\<close>, and both fields are 100.
\<close>

theorem zero_quantity_price_is_not_zero:
  "pipeline table_zero_quantity ''All''
   = Inr (Report [\<lparr>rec_API = ''PARACETAMOL'', Category = ''PARACETAMOL'', Export_Count = 1,
                    Total_Shipments = 0, Common_Strengths = ''Standard'', Avg_Qty_Export = 0,
                    Packaging_Types = ''NOS'', Total_Nos = 0, Total_Kg = 0,
                    Avg_FOB_Pack = 100, Avg_Price_Unit = 100\<rparr>])"
  by code_simp

text \<open>
  C6, amended. For every selected API group the fields \<open>Avg FOB/Pack\<close> and \<open>Avg Price/Unit\<close>
  both equal the sum of \<open>FOB_USD\<close> divided by \<open>max (sum of Quantity) 1\<close>; the divisor is never
  zero and no run ends in a division by zero; when the total quantity is 0 both fields equal
  the sum of \<open>FOB_USD\<close> of the group.
\<close>

theorem average_price_fields:
  "pipeline df api_filter \<noteq> Inl ZeroDivision
   \<and> (\<forall>fdf recs rec.
         filtered_frame df api_filter = Inr fdf
         \<and> pipeline df api_filter = Inr (Report recs) \<and> rec \<in> set recs \<longrightarrow>
           Avg_FOB_Pack rec
             = group_fob fdf (rec_API rec) / max (group_quantity fdf (rec_API rec)) 1
           \<and> Avg_Price_Unit rec
             = group_fob fdf (rec_API rec) / max (group_quantity fdf (rec_API rec)) 1
           \<and> max (group_quantity fdf (rec_API rec)) 1 \<noteq> 0
           \<and> (group_quantity fdf (rec_API rec) = 0 \<longrightarrow>
                Avg_FOB_Pack rec = group_fob fdf (rec_API rec)
                \<and> Avg_Price_Unit rec = group_fob fdf (rec_API rec)))"
proof -
  have "Avg_FOB_Pack rec
             = group_fob fdf (rec_API rec) / max (group_quantity fdf (rec_API rec)) 1
           \<and> Avg_Price_Unit rec
             = group_fob fdf (rec_API rec) / max (group_quantity fdf (rec_API rec)) 1
           \<and> max (group_quantity fdf (rec_API rec)) 1 \<noteq> 0
           \<and> (group_quantity fdf (rec_API rec) = 0 \<longrightarrow>
                Avg_FOB_Pack rec = group_fob fdf (rec_API rec)
                \<and> Avg_Price_Unit rec = group_fob fdf (rec_API rec))"
    if f: "filtered_frame df api_filter = Inr fdf"
      and p: "pipeline df api_filter = Inr (Report recs)" and r: "rec \<in> set recs"
    for fdf recs rec
  proof -
    from f p have "report (is_text_column Unit df) fdf = Inr (Report recs)" by (simp add: pipeline_eq)
    then have a: "analysis_record_for (is_text_column Unit df) fdf (rec_API rec) = Inr rec" using r by (rule report_record)
    have 1: "Avg_FOB_Pack rec
        = group_fob fdf (rec_API rec) / max (group_quantity fdf (rec_API rec)) 1"
      using a by (rule analysis_record_for_fields)
    have 2: "Avg_Price_Unit rec
        = group_fob fdf (rec_API rec) / max (group_quantity fdf (rec_API rec)) 1"
      using a by (rule analysis_record_for_fields)
    have 3: "max (group_quantity fdf (rec_API rec)) 1 \<noteq> 0" by (rule max_one_nonzero)
    have 4: "Avg_FOB_Pack rec = group_fob fdf (rec_API rec)
        \<and> Avg_Price_Unit rec = group_fob fdf (rec_API rec)"
      if "group_quantity fdf (rec_API rec) = 0"
      using 1 2 that by simp
    from 1 2 3 4 show ?thesis by blast
  qed
  then show ?thesis using pipeline_no_zero_division [of df api_filter] by blast
qed

theorem average_price_fields_witness:
  "filtered_frame sample_table ''All'' = Inr sample_filtered
   \<and> group_quantity sample_filtered ''AMOXICILLIN'' = 0
   \<and> group_fob sample_filtered ''AMOXICILLIN'' = 6
   \<and> (\<exists>recs rec. pipeline sample_table ''All'' = Inr (Report recs) \<and> rec \<in> set recs
         \<and> rec_API rec = ''AMOXICILLIN'' \<and> Avg_FOB_Pack rec = 6 \<and> Avg_Price_Unit rec = 6)"
proof -
  let ?p = "\<lparr>rec_API = ''PARACETAMOL'', Category = ''PARACETAMOL'', Export_Count = 2,
      Total_Shipments = 40, Common_Strengths = ''60ML'', Avg_Qty_Export = 20,
      Packaging_Types = ''NOS'', Total_Nos = 40, Total_Kg = 0,
      Avg_FOB_Pack = 9 / 10, Avg_Price_Unit = 9 / 10\<rparr>"
  let ?a = "\<lparr>rec_API = ''AMOXICILLIN'', Category = ''Amoxicillin'', Export_Count = 1,
      Total_Shipments = 0, Common_Strengths = ''250 MG'', Avg_Qty_Export = 0,
      Packaging_Types = ''KGS'', Total_Nos = 0, Total_Kg = 0,
      Avg_FOB_Pack = 6, Avg_Price_Unit = 6\<rparr>"
  have f: "filtered_frame sample_table ''All'' = Inr sample_filtered" by code_simp
  have q: "group_quantity sample_filtered ''AMOXICILLIN'' = 0" by code_simp
  have b: "group_fob sample_filtered ''AMOXICILLIN'' = 6" by code_simp
  have p: "pipeline sample_table ''All'' = Inr (Report [?p, ?a])" by code_simp
  have m: "?a \<in> set [?p, ?a]" by simp
  from average_price_fields [of sample_table "''All''"] f p m
  have "group_quantity sample_filtered (rec_API ?a) = 0 \<longrightarrow>
      Avg_FOB_Pack ?a = group_fob sample_filtered (rec_API ?a)
      \<and> Avg_Price_Unit ?a = group_fob sample_filtered (rec_API ?a)"
    by blast
  with q b have "Avg_FOB_Pack ?a = 6 \<and> Avg_Price_Unit ?a = 6" by simp
  with f q b p m show ?thesis by (intro conjI exI [of _ "[?p, ?a]"] exI [of _ ?a]) simp_all
qed

text \<open>
  C7, as the specification states it, fails on a tie: the modes come in sorted order, so
  the first of them is the smallest word, not the word that occurs first. Here the first
  words of the group are \<open>PARACETAMOL\<close> and \<open>500MG\<close>, once each, and the category is \<open>500MG\<close>.
\<close>

theorem category_tie_takes_sorted_first:
  "filtered_frame table_tied_words ''All'' = Inr tied_words_filtered
   \<and> first_words tied_words_filtered ''PARACETAMOL'' = [''PARACETAMOL'', ''500MG'']
   \<and> pipeline table_tied_words ''All''
       = Inr (Report [\<lparr>rec_API = ''PARACETAMOL'', Category = ''500MG'', Export_Count = 2,
                        Total_Shipments = 20, Common_Strengths = ''500MG'', Avg_Qty_Export = 10,
                        Packaging_Types = ''NOS'', Total_Nos = 20, Total_Kg = 0,
                        Avg_FOB_Pack = 6 / 5, Avg_Price_Unit = 6 / 5\<rparr>])"
proof -
  have "filtered_frame table_tied_words ''All'' = Inr tied_words_filtered" by code_simp
  moreover have "first_words tied_words_filtered ''PARACETAMOL'' = [''PARACETAMOL'', ''500MG'']"
    by code_simp
  moreover have "pipeline table_tied_words ''All''
       = Inr (Report [\<lparr>rec_API = ''PARACETAMOL'', Category = ''500MG'', Export_Count = 2,
                        Total_Shipments = 20, Common_Strengths = ''500MG'', Avg_Qty_Export = 10,
                        Packaging_Types = ''NOS'', Total_Nos = 20, Total_Kg = 0,
                        Avg_FOB_Pack = 6 / 5, Avg_Price_Unit = 6 / 5\<rparr>])"
    by code_simp
  ultimately show ?thesis by simp
qed

text \<open>
  C7, amended. For every selected API group the category is a most frequent first
  whitespace-delimited word of the product names of the group, and among the words tied for
  most frequent it is the smallest in the order of strings (character by character, by
  code point).
\<close>

theorem category_is_least_mode:
  assumes "filtered_frame df api_filter = Inr fdf"
    and "pipeline df api_filter = Inr (Report recs)" and "rec \<in> set recs"
  shows "Category rec \<in> set (first_words fdf (rec_API rec))
    \<and> (\<forall>w. count_list (first_words fdf (rec_API rec)) w
              \<le> count_list (first_words fdf (rec_API rec)) (Category rec))
    \<and> (\<forall>w. count_list (first_words fdf (rec_API rec)) w
              = count_list (first_words fdf (rec_API rec)) (Category rec)
            \<longrightarrow> Category rec \<le> w)"
proof -
  from assms(1,2) have "report (is_text_column Unit df) fdf = Inr (Report recs)" by (simp add: pipeline_eq)
  then have "analysis_record_for (is_text_column Unit df) fdf (rec_API rec) = Inr rec"
    using assms(3) by (rule report_record)
  then have c: "category (api_rows (rec_API rec) (rows fdf)) = Inr (Category rec)"
    by (rule analysis_record_for_fields)
  show ?thesis
    using category_mode(1) [OF c] category_mode(2) [OF c] category_mode(3) [OF c] by blast
qed

theorem category_is_least_mode_witness:
  "filtered_frame sample_table ''All'' = Inr sample_filtered
   \<and> first_words sample_filtered ''PARACETAMOL'' = [''Paracetamol'', ''PARACETAMOL'']
   \<and> (\<exists>recs rec. pipeline sample_table ''All'' = Inr (Report recs) \<and> rec \<in> set recs
         \<and> rec_API rec = ''PARACETAMOL'' \<and> Category rec = ''PARACETAMOL''
         \<and> Category rec \<le> ''Paracetamol'')"
proof -
  let ?p = "\<lparr>rec_API = ''PARACETAMOL'', Category = ''PARACETAMOL'', Export_Count = 2,
      Total_Shipments = 40, Common_Strengths = ''60ML'', Avg_Qty_Export = 20,
      Packaging_Types = ''NOS'', Total_Nos = 40, Total_Kg = 0,
      Avg_FOB_Pack = 9 / 10, Avg_Price_Unit = 9 / 10\<rparr>"
  let ?a = "\<lparr>rec_API = ''AMOXICILLIN'', Category = ''Amoxicillin'', Export_Count = 1,
      Total_Shipments = 0, Common_Strengths = ''250 MG'', Avg_Qty_Export = 0,
      Packaging_Types = ''KGS'', Total_Nos = 0, Total_Kg = 0,
      Avg_FOB_Pack = 6, Avg_Price_Unit = 6\<rparr>"
  have f: "filtered_frame sample_table ''All'' = Inr sample_filtered" by code_simp
  have w: "first_words sample_filtered ''PARACETAMOL'' = [''Paracetamol'', ''PARACETAMOL'']"
    by code_simp
  have p: "pipeline sample_table ''All'' = Inr (Report [?p, ?a])" by code_simp
  have m: "?p \<in> set [?p, ?a]" by simp
  from category_is_least_mode [OF f p m]
  have "\<forall>w. count_list (first_words sample_filtered (rec_API ?p)) w
              = count_list (first_words sample_filtered (rec_API ?p)) (Category ?p)
            \<longrightarrow> Category ?p \<le> w" by blast
  then have "count_list (first_words sample_filtered ''PARACETAMOL'') ''Paracetamol''
              = count_list (first_words sample_filtered ''PARACETAMOL'') ''PARACETAMOL''
            \<longrightarrow> Category ?p \<le> ''Paracetamol''" by simp
  then have "Category ?p \<le> ''Paracetamol''" unfolding w by simp
  with f w p m show ?thesis by (intro conjI exI [of _ "[?p, ?a]"] exI [of _ ?p]) simp_all
qed

text \<open>
  C8, as the specification states it, fails: there is no configuration message. A table
  without the \<open>Unit\<close> column raises \<open>KeyError\<close> inside the loop over the selected APIs, and a
  table without the \<open>Product Name\<close> column raises it when the API column is computed.
\<close>

theorem missing_text_column_raises:
  "pipeline table_without_unit ''All'' = Inl (KeyError ''Unit'')
   \<and> pipeline table_without_name ''All'' = Inl (KeyError ''Product Name'')"
proof -
  have "pipeline table_without_unit ''All'' = Inl (KeyError ''Unit'')" by code_simp
  moreover have "pipeline table_without_name ''All'' = Inl (KeyError ''Product Name'')"
    by code_simp
  ultimately show ?thesis by simp
qed

text \<open>
  C8, amended. A table without the \<open>Product Name\<close> column ends the run with a \<open>KeyError\<close>
  before the human-use filter (for that column, or for \<open>FOB (INR)\<close> when the normalizer has
  already failed). For a table without the \<open>Unit\<close> column, whenever the steps up to the
  filter succeed, the run gives the no-data warning when the filtered set is empty, and
  otherwise ends with a \<open>KeyError\<close> inside the aggregation (for \<open>Quantity\<close> when that column is
  missing too, else for \<open>Unit\<close>). No message about the configuration is produced.
\<close>

theorem missing_text_column:
  "(''Product Name'' \<notin> set (columns df) \<longrightarrow>
      pipeline df api_filter = Inl (KeyError ''Product Name'')
      \<or> pipeline df api_filter = Inl (KeyError ''FOB (INR)''))
   \<and> (''Unit'' \<notin> set (columns df) \<longrightarrow>
        (\<forall>fdf. filtered_frame df api_filter = Inr fdf \<longrightarrow>
           pipeline df api_filter =
             (if rows fdf = [] then Inr No_Valid_Data
              else if ''Quantity'' \<notin> set (columns df) then Inl (KeyError ''Quantity'')
              else Inl (KeyError ''Unit''))))"
proof -
  have 1: "pipeline df api_filter = Inl (KeyError ''Product Name'')
      \<or> pipeline df api_filter = Inl (KeyError ''FOB (INR)'')"
    if "''Product Name'' \<notin> set (columns df)"
    using valid_frame_without_name [OF that]
    by (auto simp: pipeline_def filtered_frame_def)
  have 2: "pipeline df api_filter =
             (if rows fdf = [] then Inr No_Valid_Data
              else if ''Quantity'' \<notin> set (columns df) then Inl (KeyError ''Quantity'')
              else Inl (KeyError ''Unit''))"
    if u: "''Unit'' \<notin> set (columns df)" and f: "filtered_frame df api_filter = Inr fdf" for fdf
  proof -
    have p: "pipeline df api_filter = report (is_text_column Unit df) fdf" using f by (rule pipeline_eq)
    have cols: "set (columns fdf) = insert ''API'' (insert ''FOB (USD)'' (set (columns df)))"
      using f by (rule filtered_frame_columns)
    show ?thesis
    proof (cases "rows fdf = []")
      case True
      with p show ?thesis by (simp add: report_def)
    next
      case ne: False
      show ?thesis
      proof (cases "''Quantity'' \<in> set (columns df)")
        case False
        with cols have "top_apis fdf = Inl (KeyError ''Quantity'')" by (simp add: top_apis_eq)
        with p ne False show ?thesis by (simp add: report_def analysis_data_def)
      next
        case True
        with cols obtain apis where t: "top_apis fdf = Inr apis" by (simp add: top_apis_eq)
        from top_apis_Inr(3) [OF t ne] obtain a as where apis: "apis = a # as"
          by (cases apis) auto
        from u cols have "analysis_record_for (is_text_column Unit df) fdf a = Inl (KeyError ''Unit'')"
          by (simp add: analysis_record_for_eq)
        then have "collect (analysis_record_for (is_text_column Unit df) fdf) apis = Inl (KeyError ''Unit'')"
          unfolding apis by (rule collect_first_error)
        with p ne True t show ?thesis by (simp add: report_def analysis_data_def)
      qed
    qed
  qed
  from 1 2 show ?thesis by blast
qed

theorem missing_text_column_witness:
  "''Unit'' \<notin> set (columns table_without_unit)
   \<and> ''Quantity'' \<in> set (columns table_without_unit)
   \<and> (\<exists>fdf. filtered_frame table_without_unit ''All'' = Inr fdf \<and> rows fdf \<noteq> [])
   \<and> pipeline table_without_unit ''All'' = Inl (KeyError ''Unit'')
   \<and> ''Product Name'' \<notin> set (columns table_without_name)
   \<and> (pipeline table_without_name ''All'' = Inl (KeyError ''Product Name'')
       \<or> pipeline table_without_name ''All'' = Inl (KeyError ''FOB (INR)''))"
proof -
  let ?fdf = "\<lparr>columns = [''API'', ''FOB (USD)'', ''Product Name'', ''Quantity'', ''FOB (INR)''],
      rows = [blank_row\<lparr>Product_Name := Some ''PARACETAMOL 500MG TABLET'',
                         Quantity := Num 10, FOB_INR := Num 1000, FOB_USD := Num 12,
                         API := ''PARACETAMOL''\<rparr>]\<rparr>"
  have u: "''Unit'' \<notin> set (columns table_without_unit)" by code_simp
  have q: "''Quantity'' \<in> set (columns table_without_unit)" by code_simp
  have f: "filtered_frame table_without_unit ''All'' = Inr ?fdf" by code_simp
  have ne: "rows ?fdf \<noteq> []" by simp
  have n: "''Product Name'' \<notin> set (columns table_without_name)" by code_simp
  from missing_text_column [of table_without_unit "''All''"] u f
  have "pipeline table_without_unit ''All'' =
          (if rows ?fdf = [] then Inr No_Valid_Data
           else if ''Quantity'' \<notin> set (columns table_without_unit) then Inl (KeyError ''Quantity'')
           else Inl (KeyError ''Unit''))" by blast
  with q ne have 1: "pipeline table_without_unit ''All'' = Inl (KeyError ''Unit'')" by simp
  from missing_text_column [of table_without_name "''All''"] n
  have 2: "pipeline table_without_name ''All'' = Inl (KeyError ''Product Name'')
       \<or> pipeline table_without_name ''All'' = Inl (KeyError ''FOB (INR)'')" by blast
  from u q f ne 1 n 2 show ?thesis by blast
qed

text \<open>
  C10. The sentinel collides with a real token: for the name \<open>INVALID SYRUP\<close> the first
  surviving token is the word \<open>INVALID\<close>, which \<open>extract_api\<close> returns just as it returns the
  sentinel for \<open>ABC\<close>, where no token survives. Every row whose first surviving token is
  that word is dropped from the valid set, hence from the filtered set, and no record of a
  report carries it.
\<close>

theorem sentinel_collides_with_token:
  "valid_tokens ''INVALID SYRUP'' = [''INVALID'']
   \<and> extract_api ''INVALID SYRUP'' = ''INVALID''
   \<and> valid_tokens ''ABC'' = [] \<and> extract_api ''ABC'' = ''INVALID''
   \<and> pipeline table_invalid_syrup ''All'' = Inr No_Valid_Data
   \<and> (\<forall>vdf r ts. valid_frame df = Inr vdf \<and> r \<in> set (rows vdf) \<longrightarrow>
          valid_tokens (py_str (Product_Name r)) \<noteq> ''INVALID'' # ts)
   \<and> (\<forall>fdf r ts. filtered_frame df api_filter = Inr fdf \<and> r \<in> set (rows fdf) \<longrightarrow>
          valid_tokens (py_str (Product_Name r)) \<noteq> ''INVALID'' # ts)
   \<and> (\<forall>recs rec. pipeline df api_filter = Inr (Report recs) \<and> rec \<in> set recs \<longrightarrow>
          rec_API rec \<noteq> ''INVALID'')"
proof (intro conjI allI impI)
  show "valid_tokens ''INVALID SYRUP'' = [''INVALID'']" by code_simp
  show "extract_api ''INVALID SYRUP'' = ''INVALID''" by code_simp
  show "valid_tokens ''ABC'' = []" by code_simp
  show "extract_api ''ABC'' = ''INVALID''" by code_simp
  show "pipeline table_invalid_syrup ''All'' = Inr No_Valid_Data" by code_simp
next
  fix vdf r ts
  assume "valid_frame df = Inr vdf \<and> r \<in> set (rows vdf)"
  then show "valid_tokens (py_str (Product_Name r)) \<noteq> ''INVALID'' # ts"
    by (elim conjE) (rule valid_frame_no_sentinel_token)
next
  fix fdf r ts
  assume "filtered_frame df api_filter = Inr fdf \<and> r \<in> set (rows fdf)"
  then show "valid_tokens (py_str (Product_Name r)) \<noteq> ''INVALID'' # ts"
    by (elim conjE) (rule filtered_frame_no_sentinel_token)
next
  fix recs rec
  assume "pipeline df api_filter = Inr (Report recs) \<and> rec \<in> set recs"
  then show "rec_API rec \<noteq> ''INVALID''"
    by (elim conjE) (rule report_api_not_sentinel)
qed

theorem sentinel_collides_with_token_witness:
  "valid_frame table_invalid_syrup
     = Inr \<lparr>columns = [''API'', ''FOB (USD)'', ''Product Name'', ''Unit'', ''Quantity'',
                        ''FOB (INR)''], rows = []\<rparr>
   \<and> filtered_frame sample_table ''All'' = Inr sample_filtered
   \<and> valid_tokens ''Paracetamol 500mg Tablet'' \<noteq> [''INVALID'']"
proof -
  let ?r = "blank_row\<lparr>Product_Name := Some ''Paracetamol 500mg Tablet'',
                       Unit := Some ''NOS'', Quantity := Num 10, FOB_INR := Num 1000,
                       FOB_USD := Num 12, API := ''PARACETAMOL''\<rparr>"
  have 1: "valid_frame table_invalid_syrup
     = Inr \<lparr>columns = [''API'', ''FOB (USD)'', ''Product Name'', ''Unit'', ''Quantity'',
                        ''FOB (INR)''], rows = []\<rparr>" by code_simp
  have 2: "filtered_frame sample_table ''All'' = Inr sample_filtered" by code_simp
  have 3: "?r \<in> set (rows sample_filtered)" by code_simp
  have 4: "py_str (Product_Name ?r) = ''Paracetamol 500mg Tablet''" by code_simp
  have "\<forall>fdf r ts. filtered_frame sample_table ''All'' = Inr fdf \<and> r \<in> set (rows fdf) \<longrightarrow>
          valid_tokens (py_str (Product_Name r)) \<noteq> ''INVALID'' # ts"
    using sentinel_collides_with_token [of sample_table "''All''"] by (elim conjE)
  then have "filtered_frame sample_table ''All'' = Inr sample_filtered
      \<and> ?r \<in> set (rows sample_filtered) \<longrightarrow>
        valid_tokens (py_str (Product_Name ?r)) \<noteq> ''INVALID'' # []"
    by (elim allE)
  with 2 3 have "valid_tokens (py_str (Product_Name ?r)) \<noteq> [''INVALID'']"
    by (elim impE) (intro conjI)
  then have "valid_tokens ''Paracetamol 500mg Tablet'' \<noteq> [''INVALID'']" unfolding 4 .
  with 1 2 show ?thesis by (intro conjI)
qed

end
